theory Spec2Isabelle
  imports Main "HOL-Library.Word"
begin

unbundle bit_operations_syntax

section \<open>Bytes, big-endian integers and Go slices\<close>

type_synonym byte = "8 word"
type_synonym uint32 = "32 word"

text \<open>
  A Go \<open>string\<close> is an immutable sequence of bytes. It is modelled by a HOL \<open>string\<close>;
  \<open>util.StringToSliceByte\<close> and \<open>util.SliceByteToString\<close> reinterpret the same bytes.
\<close>

definition StringToSliceByte :: "string \<Rightarrow> byte list" where
  "StringToSliceByte s = map (\<lambda>c. word_of_nat (of_char c)) s"

definition SliceByteToString :: "byte list \<Rightarrow> string" where
  "SliceByteToString bs = map (\<lambda>b. char_of (unat b)) bs"

text \<open>\<open>binary.BigEndian.PutUint32\<close> and \<open>binary.BigEndian.Uint32\<close> on a 4-byte slice.\<close>

definition PutUint32 :: "uint32 \<Rightarrow> byte list" where
  "PutUint32 v = [ucast (drop_bit 24 v), ucast (drop_bit 16 v), ucast (drop_bit 8 v), ucast v]"

definition Uint32 :: "byte list \<Rightarrow> uint32" where
  "Uint32 b = ucast (b ! 3) OR push_bit 8 (ucast (b ! 2)) OR push_bit 16 (ucast (b ! 1))
              OR push_bit 24 (ucast (b ! 0))"

section \<open>Header\<close>

text \<open>\<open>type Header [12]byte\<close>: a list of bytes, of length 12 in every well-formed message.\<close>

type_synonym Header = "byte list"

definition magicNumber :: byte where
  "magicNumber = 0x08"

text \<open>\<open>RpcMessageType\<close>, \<open>RpcMessageStatusType\<close> and \<open>CompressType\<close> are Go \<open>byte\<close> types.\<close>

definition Request :: byte where "Request = 0"
definition Response :: byte where "Response = 1"
definition Normal :: byte where "Normal = 0"
definition Error :: byte where "Error = 1"
definition None_ct :: byte where "None_ct = 0"
definition Gzip :: byte where "Gzip = 1"

definition CheckMagicNumber :: "Header \<Rightarrow> bool" where
  "CheckMagicNumber h = (h ! 0 = magicNumber)"

definition MessageType :: "Header \<Rightarrow> byte" where
  "MessageType h = drop_bit 7 ((h ! 2) AND 0x80)"

definition SetMessageType :: "Header \<Rightarrow> byte \<Rightarrow> Header" where
  "SetMessageType h mt = h[2 := (h ! 2) OR push_bit 7 mt]"

definition IsHeartbeat :: "Header \<Rightarrow> bool" where
  "IsHeartbeat h = ((h ! 2) AND 0x40 = 0x40)"

definition SetHeartbeat :: "Header \<Rightarrow> bool \<Rightarrow> Header" where
  "SetHeartbeat h hb = (if hb then h[2 := (h ! 2) OR 0x40] else h[2 := (h ! 2) AND NOT 0x40])"

definition IsOneway :: "Header \<Rightarrow> bool" where
  "IsOneway h = ((h ! 2) AND 0x20 = 0x20)"

definition SetOneway :: "Header \<Rightarrow> bool \<Rightarrow> Header" where
  "SetOneway h oneway = (if oneway then h[2 := (h ! 2) OR 0x20] else h[2 := (h ! 2) AND NOT 0x20])"

definition CompressType :: "Header \<Rightarrow> byte" where
  "CompressType h = drop_bit 2 ((h ! 2) AND 0x1C)"

definition SetCompressType :: "Header \<Rightarrow> byte \<Rightarrow> Header" where
  "SetCompressType h ct = h[2 := ((h ! 2) AND NOT 0x1C) OR (push_bit 2 ct AND 0x1C)]"

definition MessageStatusType :: "Header \<Rightarrow> byte" where
  "MessageStatusType h = (h ! 2) AND 0x03"

definition SetMessageStatusType :: "Header \<Rightarrow> byte \<Rightarrow> Header" where
  "SetMessageStatusType h mt = h[2 := ((h ! 2) AND NOT 0x03) OR (mt AND 0x03)]"

section \<open>Errors, panics, slices and readers\<close>

datatype error =
    ErrMetaKVMissing
  | ErrRpcMessageTooLong
  | ErrUnsupportedCompressor
  | ErrWrongMagicNumber byte
  | EOF
  | ErrUnexpectedEOF
  | ErrOther string

text \<open>A Go call either returns or panics (a slice expression out of range panics).\<close>

datatype 'a outcome = Panic | Return 'a

text \<open>
  A Go slice: \<open>backing\<close> is the storage from the slice's first element up to its capacity,
  \<open>slen\<close> its length. The slice expression \<open>s[lo:hi]\<close> is checked against the capacity,
  not the length, and panics when \<open>lo \<le> hi \<le> cap(s)\<close> fails.
\<close>

record slice =
  backing :: "byte list"
  slen :: nat

definition cap_s :: "slice \<Rightarrow> nat" where
  "cap_s s = length (backing s)"

definition bytes_of :: "slice \<Rightarrow> byte list" where
  "bytes_of s = take (slen s) (backing s)"

definition reslice :: "slice \<Rightarrow> nat \<Rightarrow> nat \<Rightarrow> slice option" where
  "reslice s lo hi =
     (if lo \<le> hi \<and> hi \<le> cap_s s then Some \<lparr>backing = drop lo (backing s), slen = hi - lo\<rparr>
      else None)"

definition nil_slice :: slice where
  "nil_slice = \<lparr>backing = [], slen = 0\<rparr>"

text \<open>\<open>copy(dst[off:off+len(src)], src)\<close>: overwrite \<open>dst\<close> from offset \<open>off\<close>.\<close>

definition copy_at :: "byte list \<Rightarrow> nat \<Rightarrow> byte list \<Rightarrow> byte list" where
  "copy_at dst off src = take off dst @ take (length dst - off) src @ drop (off + length src) dst"

text \<open>
  An \<open>io.Reader\<close> over a finite stream is the list of bytes still to come. \<open>io.ReadFull\<close>
  for \<open>n\<close> bytes yields the bytes read, the error and the rest of the stream: \<open>EOF\<close> when
  nothing could be read, \<open>ErrUnexpectedEOF\<close> after a partial read.
\<close>

definition ReadFull :: "byte list \<Rightarrow> nat \<Rightarrow> byte list \<times> error option \<times> byte list" where
  "ReadFull r n =
     (if n \<le> length r then (take n r, None, drop n r)
      else (r, Some (if r = [] then EOF else ErrUnexpectedEOF), []))"

section \<open>Compressors\<close>

text \<open>
  The \<open>Compressor\<close> interface: \<open>Zip\<close> and \<open>Unzip\<close> return a byte slice and an error.
  The global registry \<open>Compressors\<close> maps a compression code to its compressor, if any.
\<close>

record Compressor =
  Zip :: "byte list \<Rightarrow> byte list \<times> error option"
  Unzip :: "byte list \<Rightarrow> byte list \<times> error option"

type_synonym registry = "byte \<Rightarrow> Compressor option"

section \<open>Message body and metadata\<close>

record Message =
  Header :: Header
  ServicePath :: string
  ServiceMethod :: string
  Metadata :: "string \<rightharpoonup> string"
  Payload :: "byte list"
  data :: slice

definition NewRpcMessage :: Message where
  "NewRpcMessage = \<lparr>Header = (replicate 12 0)[0 := magicNumber], ServicePath = [], ServiceMethod = [],
     Metadata = Map.empty, Payload = [], data = nil_slice\<rparr>"

text \<open>
  \<open>encodeMetadata\<close>: the \<open>range\<close> loop visits the pairs of the map in an unspecified order;
  the second argument is the list of pairs in the order of the visit (empty for an empty or nil
  map), the third the buffer written so far.
\<close>

fun encodeMetadata :: "(string \<times> string) list \<Rightarrow> byte list \<Rightarrow> byte list" where
  "encodeMetadata [] bb = bb"
| "encodeMetadata ((k, v) # kvs) bb =
     encodeMetadata kvs
       (bb @ PutUint32 (word_of_nat (length k)) @ StringToSliceByte k
           @ PutUint32 (word_of_nat (length v)) @ StringToSliceByte v)"

text \<open>
  \<open>decodeMetadata\<close>: the loop \<open>for n < l\<close> with cursor \<open>n\<close> and map \<open>m\<close>; all cursor
  arithmetic is on \<open>uint32\<close> and wraps around.
\<close>

function decodeMetadata_loop ::
  "uint32 \<Rightarrow> slice \<Rightarrow> uint32 \<Rightarrow> (string \<rightharpoonup> string) \<Rightarrow> ((string \<rightharpoonup> string) \<times> error option) outcome"
where
  "decodeMetadata_loop l d n m =
     (if n < l then
        (case reslice d (unat n) (unat (n + 4)) of
           None \<Rightarrow> Panic
         | Some b1 \<Rightarrow>
             (if (n + 4) + Uint32 (bytes_of b1) > l - 4 then Return (m, Some ErrMetaKVMissing)
              else
                (case reslice d (unat (n + 4)) (unat ((n + 4) + Uint32 (bytes_of b1))) of
                   None \<Rightarrow> Panic
                 | Some kb \<Rightarrow>
                     (case reslice d (unat ((n + 4) + Uint32 (bytes_of b1)))
                                     (unat ((n + 4) + Uint32 (bytes_of b1) + 4)) of
                        None \<Rightarrow> Panic
                      | Some b2 \<Rightarrow>
                          (if (n + 4) + Uint32 (bytes_of b1) + 4 + Uint32 (bytes_of b2) > l
                           then Return (m, Some ErrMetaKVMissing)
                           else
                             (case reslice d (unat ((n + 4) + Uint32 (bytes_of b1) + 4))
                                     (unat ((n + 4) + Uint32 (bytes_of b1) + 4 + Uint32 (bytes_of b2))) of
                                None \<Rightarrow> Panic
                              | Some vb \<Rightarrow>
                                  decodeMetadata_loop l d
                                    ((n + 4) + Uint32 (bytes_of b1) + 4 + Uint32 (bytes_of b2))
                                    (m(SliceByteToString (bytes_of kb) \<mapsto>
                                       SliceByteToString (bytes_of vb)))))))))
      else Return (m, None))"
  by pat_completeness auto
termination
proof (relation "measure (\<lambda>(l, d, n, m). unat l - unat n)", goal_cases)
  case 1
  show ?case by simp
next
  case (2 l d n m b1 kb b2 vb)
  have le: "lo \<le> hi" if "reslice s lo hi = Some t" for s lo hi t
    using that by (auto simp: reslice_def split: if_splits)
  have bound: "unat n < 2 ^ 32"
  proof -
    have "unat n < 2 ^ LENGTH(32)" by (rule unsigned_less)
    then show ?thesis by simp
  qed
  have wrap: "unat (n + 4) = (unat n + 4) mod 2 ^ 32"
    by (simp add: unat_word_ariths)
  have nowrap: "unat n \<le> unat (n + 4)"
    using 2(2) by (rule le)
  have a: "unat (n + 4) = unat n + 4"
  proof (cases "unat n + 4 < 2 ^ 32")
    case True
    then show ?thesis using wrap by simp
  next
    case False
    then have "(unat n + 4) mod 2 ^ 32 = unat n + 4 - 2 ^ 32"
      using bound by (simp add: mod_if)
    then show ?thesis using nowrap wrap bound by simp
  qed
  have b: "unat (n + 4) \<le> unat (n + 4 + Uint32 (bytes_of b1))"
    using 2(4) by (rule le)
  have c: "unat (n + 4 + Uint32 (bytes_of b1)) \<le> unat (n + 4 + Uint32 (bytes_of b1) + 4)"
    using 2(5) by (rule le)
  have d: "unat (n + 4 + Uint32 (bytes_of b1) + 4)
             \<le> unat (n + 4 + Uint32 (bytes_of b1) + 4 + Uint32 (bytes_of b2))"
    using 2(7) by (rule le)
  have e: "unat (n + 4 + Uint32 (bytes_of b1) + 4 + Uint32 (bytes_of b2)) \<le> unat l"
    using 2(6) by (simp add: word_less_nat_alt not_less)
  have "unat n < unat (n + 4 + Uint32 (bytes_of b1) + 4 + Uint32 (bytes_of b2))"
    using a b c d by linarith
  then show ?case using e by simp
qed

declare decodeMetadata_loop.simps [simp del]

definition decodeMetadata ::
  "uint32 \<Rightarrow> slice \<Rightarrow> ((string \<rightharpoonup> string) \<times> error option) outcome" where
  "decodeMetadata l d = decodeMetadata_loop l d 0 Map.empty"

section \<open>Encoding\<close>

text \<open>
  \<open>EncodeSlicePointer\<close> fills a buffer of \<open>l\<close> bytes taken from the pool; every byte of it
  is overwritten. The receiver is a copy of the message but its header is shared through a
  pointer, so \<open>SetCompressType\<close> changes the caller's header too: the header after the call
  is returned with the bytes. \<open>range_md\<close> is the order in which \<open>range\<close> visits the metadata.
  \<open>Encode_zip\<close> is the compression block of the function: the header and the payload to
  encode, downgraded to identity when no compressor is registered or \<open>Zip\<close> fails.
\<close>

definition Encode_zip :: "registry \<Rightarrow> Message \<Rightarrow> Header \<times> byte list" where
  "Encode_zip Compressors m =
     (if CompressType (Header m) \<noteq> None_ct then
        (case Compressors (CompressType (Header m)) of
           None \<Rightarrow> (SetCompressType (Header m) None_ct, Payload m)
         | Some compressor \<Rightarrow>
             (case Zip compressor (Payload m) of
                (z, None) \<Rightarrow> (Header m, z)
              | (z, Some err) \<Rightarrow> (SetCompressType (Header m) None_ct, Payload m)))
      else (Header m, Payload m))"

definition EncodeSlicePointer ::
  "registry \<Rightarrow> (string \<times> string) list \<Rightarrow> Message \<Rightarrow> byte list \<times> Header" where
  "EncodeSlicePointer Compressors range_md m =
     (let meta = encodeMetadata range_md [];
          spL = length (ServicePath m);
          smL = length (ServiceMethod m);
          (h, payload) = Encode_zip Compressors m;
          totalL = (4 + spL) + (4 + smL) + (4 + length meta) + (4 + length payload);
          metaStart = 12 + 4 + (4 + spL) + (4 + smL);
          payLoadStart = metaStart + (4 + length meta);
          l = 12 + 4 + totalL;
          d0 = replicate l 0;
          d1 = copy_at d0 0 h;
          d2 = copy_at d1 12 (PutUint32 (word_of_nat totalL));
          d3 = copy_at d2 16 (PutUint32 (word_of_nat spL));
          d4 = copy_at d3 20 (StringToSliceByte (ServicePath m));
          d5 = copy_at d4 (20 + spL) (PutUint32 (word_of_nat smL));
          d6 = copy_at d5 (24 + spL) (StringToSliceByte (ServiceMethod m));
          d7 = copy_at d6 metaStart (PutUint32 (word_of_nat (length meta)));
          d8 = copy_at d7 (metaStart + 4) meta;
          d9 = copy_at d8 payLoadStart (PutUint32 (word_of_nat (length payload)));
          d10 = copy_at d9 (payLoadStart + 4) payload
      in (d10, h))"

definition Encode :: "registry \<Rightarrow> (string \<times> string) list \<Rightarrow> Message \<Rightarrow> byte list" where
  "Encode Compressors range_md m = fst (EncodeSlicePointer Compressors range_md m)"

text \<open>
  \<open>WriteTo\<close> writes field by field to an \<open>io.Writer\<close>. The writer is a state \<open>w\<close> with a
  function \<open>wr\<close> for its \<open>Write\<close> method, returning the count, the error and the next state.
  \<open>binary.Write\<close> of a \<open>uint32\<close> is one \<open>Write\<close> of its four big-endian bytes.
\<close>

type_synonym 'w writer = "'w \<Rightarrow> byte list \<Rightarrow> (nat \<times> error option) \<times> 'w"

definition WriteTo ::
  "'w writer \<Rightarrow> registry \<Rightarrow> (string \<times> string) list \<Rightarrow> Message \<Rightarrow> 'w \<Rightarrow> (nat \<times> error option) \<times> 'w" where
  "WriteTo wr Compressors range_md m w0 =
     (case wr w0 (Header m) of
        ((n, Some err), w1) \<Rightarrow> ((n, Some err), w1)
      | ((n, None), w1) \<Rightarrow>
     (let meta = encodeMetadata range_md [] in
      case (if CompressType (Header m) \<noteq> None_ct then
              (case Compressors (CompressType (Header m)) of
                 None \<Rightarrow> Inl ErrUnsupportedCompressor
               | Some compressor \<Rightarrow>
                   (case Zip compressor (Payload m) of
                      (z, None) \<Rightarrow> Inr z
                    | (z, Some err) \<Rightarrow> Inl err))
            else Inr (Payload m)) of
        Inl err \<Rightarrow> ((n, Some err), w1)
      | Inr payload \<Rightarrow>
     (let totalL = (4 + length (ServicePath m)) + (4 + length (ServiceMethod m))
                   + (4 + length meta) + (4 + length payload) in
      case wr w1 (PutUint32 (word_of_nat totalL)) of
        ((_, Some err), w2) \<Rightarrow> ((n, Some err), w2)
      | ((_, None), w2) \<Rightarrow>
     (case wr w2 (PutUint32 (word_of_nat (length (ServicePath m)))) of
        ((_, Some err), w3) \<Rightarrow> ((n, Some err), w3)
      | ((_, None), w3) \<Rightarrow>
     (case wr w3 (StringToSliceByte (ServicePath m)) of
        ((_, Some err), w4) \<Rightarrow> ((n, Some err), w4)
      | ((_, None), w4) \<Rightarrow>
     (case wr w4 (PutUint32 (word_of_nat (length (ServiceMethod m)))) of
        ((_, Some err), w5) \<Rightarrow> ((n, Some err), w5)
      | ((_, None), w5) \<Rightarrow>
     (case wr w5 (StringToSliceByte (ServiceMethod m)) of
        ((_, Some err), w6) \<Rightarrow> ((n, Some err), w6)
      | ((_, None), w6) \<Rightarrow>
     (case wr w6 (PutUint32 (word_of_nat (length meta))) of
        ((_, Some err), w7) \<Rightarrow> ((n, Some err), w7)
      | ((_, None), w7) \<Rightarrow>
     (case wr w7 meta of
        ((_, Some err), w8) \<Rightarrow> ((n, Some err), w8)
      | ((_, None), w8) \<Rightarrow>
     (case wr w8 (PutUint32 (word_of_nat (length payload))) of
        ((_, Some err), w9) \<Rightarrow> ((n, Some err), w9)
      | ((_, None), w9) \<Rightarrow>
     (case wr w9 payload of
        ((nn, err), w10) \<Rightarrow> ((nn, err), w10))))))))))))"

section \<open>Decoding\<close>

text \<open>Sequencing of calls that may panic, and the slice expression as such a call.\<close>

definition and_then :: "'a outcome \<Rightarrow> ('a \<Rightarrow> 'b outcome) \<Rightarrow> 'b outcome" where
  "and_then x f = (case x of Panic \<Rightarrow> Panic | Return v \<Rightarrow> f v)"

definition slice_expr :: "slice \<Rightarrow> nat \<Rightarrow> nat \<Rightarrow> slice outcome" where
  "slice_expr s lo hi = (case reslice s lo hi of None \<Rightarrow> Panic | Some t \<Rightarrow> Return t)"

text \<open>
  \<open>Decode\<close> changes the receiver in place, also on the paths that return an error: the result
  is the message after the call, the error and the rest of the stream, or a panic.
  \<open>MaxRpcMessageLength\<close> is the global limit (an \<open>int\<close> of 64 bits, so \<open>int(l)\<close> of a
  \<open>uint32\<close> is never negative). The parse of the body, after \<open>io.ReadFull(r, data)\<close>, is
  \<open>Decode_body\<close>; the cursor \<open>n\<close> and \<open>nEnd\<close> are \<open>int\<close>s that cannot overflow here.
  Its last block, the decompression of the payload, is \<open>Decode_unzip\<close>.
\<close>

definition Decode_unzip :: "registry \<Rightarrow> Message \<Rightarrow> (Message \<times> error option) outcome" where
  "Decode_unzip Compressors m =
     (if CompressType (Header m) \<noteq> None_ct then
        (case Compressors (CompressType (Header m)) of
           None \<Rightarrow> Return (m, Some ErrUnsupportedCompressor)
         | Some compressor \<Rightarrow>
             (let (p, err) = Unzip compressor (Payload m) in Return (m\<lparr>Payload := p\<rparr>, err)))
      else Return (m, None))"

definition Decode_body :: "registry \<Rightarrow> Message \<Rightarrow> (Message \<times> error option) outcome" where
  "Decode_body Compressors m =
     (let d = data m in
      and_then (slice_expr d 0 4) (\<lambda>f1.
      let n1 = 4; nEnd1 = n1 + unat (Uint32 (bytes_of f1)) in
      and_then (slice_expr d n1 nEnd1) (\<lambda>sp.
      let m1 = m\<lparr>ServicePath := SliceByteToString (bytes_of sp)\<rparr> in
      and_then (slice_expr d nEnd1 (nEnd1 + 4)) (\<lambda>f2.
      let n2 = nEnd1 + 4; nEnd2 = n2 + unat (Uint32 (bytes_of f2)) in
      and_then (slice_expr d n2 nEnd2) (\<lambda>sm.
      let m2 = m1\<lparr>ServiceMethod := SliceByteToString (bytes_of sm)\<rparr> in
      and_then (slice_expr d nEnd2 (nEnd2 + 4)) (\<lambda>f3.
      let l3 = Uint32 (bytes_of f3); n3 = nEnd2 + 4; nEnd3 = n3 + unat l3 in
      and_then
        (if l3 > 0 then
           and_then (slice_expr d n3 nEnd3) (\<lambda>md.
           and_then (decodeMetadata l3 md) (\<lambda>(mp, err).
           Return (m2\<lparr>Metadata := mp\<rparr>, err)))
         else Return (m2, None)) (\<lambda>(m3, err3).
      if err3 \<noteq> None then Return (m3, err3) else
      and_then (slice_expr d nEnd3 (nEnd3 + 4)) (\<lambda>f4.
      let n4 = nEnd3 + 4 in
      and_then (slice_expr d n4 (slen d)) (\<lambda>pl.
      Decode_unzip Compressors (m3\<lparr>Payload := bytes_of pl\<rparr>))))))))))"

definition Decode ::
  "registry \<Rightarrow> int \<Rightarrow> Message \<Rightarrow> byte list \<Rightarrow> (Message \<times> error option \<times> byte list) outcome" where
  "Decode Compressors MaxRpcMessageLength m r =
     (let (b1, e1, r1) = ReadFull r 1;
          m1 = m\<lparr>Header := copy_at (Header m) 0 b1\<rparr>
      in
      if e1 \<noteq> None then Return (m1, e1, r1)
      else if \<not> CheckMagicNumber (Header m1)
      then Return (m1, Some (ErrWrongMagicNumber (Header m1 ! 0)), r1)
      else
      let (b2, e2, r2) = ReadFull r1 11;
          m2 = m1\<lparr>Header := copy_at (Header m1) 1 b2\<rparr>
      in
      if e2 \<noteq> None then Return (m2, e2, r2)
      else
      let (lenData, e3, r3) = ReadFull r2 4 in
      if e3 \<noteq> None then Return (m2, e3, r3)
      else
      let l = Uint32 lenData in
      if MaxRpcMessageLength > 0 \<and> uint l > MaxRpcMessageLength
      then Return (m2, Some ErrRpcMessageTooLong, r3)
      else
      let totalL = unat l;
          d = (if cap_s (data m2) \<ge> totalL then (data m2)\<lparr>slen := totalL\<rparr>
               else \<lparr>backing = replicate totalL 0, slen = totalL\<rparr>);
          (body, e4, r4) = ReadFull r3 totalL;
          m3 = m2\<lparr>data := d\<lparr>backing := copy_at (backing d) 0 body\<rparr>\<rparr>
      in
      if e4 \<noteq> None then Return (m3, e4, r4)
      else and_then (Decode_body Compressors m3) (\<lambda>(m4, err). Return (m4, err, r4)))"

text \<open>\<open>Read\<close>: decode into a new message; the message is \<open>nil\<close> when decoding failed.\<close>

definition Read ::
  "registry \<Rightarrow> int \<Rightarrow> byte list \<Rightarrow> (Message option \<times> error option \<times> byte list) outcome" where
  "Read Compressors MaxRpcMessageLength r =
     and_then (Decode Compressors MaxRpcMessageLength NewRpcMessage r) (\<lambda>(msg, err, r').
       if err \<noteq> None then Return (None, err, r') else Return (Some msg, None, r'))"

section \<open>Session: close, write attempts and contexts\<close>

text \<open>
  \<open>baseSession\<close>, as far as \<open>Close\<close> is concerned: the channel \<open>closed\<close> (closed or not) and
  the \<open>sync.Once\<close> guard \<open>closeOnce\<close> (done or not). \<open>fired\<close> counts the executions of
  \<open>close(s.closed)\<close>, to observe them. Closing a closed channel panics. \<open>sync.Once.Do\<close>
  serialises its callers, so concurrent calls of \<open>Close\<close> take effect in some order, one after
  the other.
\<close>

record baseSession =
  closed :: bool
  closeOnce :: bool
  fired :: nat

definition newSession :: baseSession where
  "newSession = \<lparr>closed = False, closeOnce = False, fired = 0\<rparr>"

definition close_closed :: "baseSession \<Rightarrow> baseSession outcome" where
  "close_closed s = (if closed s then Panic else Return (s\<lparr>closed := True, fired := fired s + 1\<rparr>))"

definition closeOnce_Do ::
  "(baseSession \<Rightarrow> baseSession outcome) \<Rightarrow> baseSession \<Rightarrow> baseSession outcome" where
  "closeOnce_Do f s = (if closeOnce s then Return s else f (s\<lparr>closeOnce := True\<rparr>))"

definition Close :: "baseSession \<Rightarrow> baseSession outcome" where
  "Close s = closeOnce_Do close_closed s"

text \<open>The calls of \<open>Close\<close> by a list of callers, in the order in which they take effect.\<close>

fun Close_calls :: "'caller list \<Rightarrow> baseSession \<Rightarrow> baseSession outcome" where
  "Close_calls [] s = Return s"
| "Close_calls (c # cs) s = and_then (Close s) (Close_calls cs)"

text \<open>
  \<open>attemptConnWrite\<close>. An error of the connection is a \<open>net.Error\<close>, with its \<open>Timeout()\<close>
  and \<open>Temporary()\<close> answers, or some other error. The connection is the sequence of the
  results of the physical writes still to come. The trace records the calls of \<open>time.Sleep\<close>
  (in nanoseconds) and of the physical write, in order.
\<close>

datatype conn_error = OtherError | NetError bool bool

datatype event = Sleep int | Write

type_synonym conn = "nat \<Rightarrow> conn_error option"

definition tempErrDelay :: int where
  "tempErrDelay = 5 * 1000000"

definition conn_Write :: "conn \<Rightarrow> conn_error option \<times> conn" where
  "conn_Write c = (c 0, \<lambda>k. c (Suc k))"

function attemptConnWrite_loop ::
  "int \<Rightarrow> int \<Rightarrow> conn \<Rightarrow> event list \<Rightarrow> conn_error option \<Rightarrow> conn_error option \<times> event list" where
  "attemptConnWrite_loop attemptTimes i c tr err =
     (if i < attemptTimes then
        (let tr1 = tr @ [Sleep (tempErrDelay * i)];
             (err1, c1) = conn_Write c;
             tr2 = tr1 @ [Write]
         in
         if err1 = None \<or> i = attemptTimes - 1 then (err1, tr2)
         else
           (case err1 of
              Some (NetError timeout temporary) \<Rightarrow>
                (if timeout then (err1, tr2)
                 else if temporary then attemptConnWrite_loop attemptTimes (i + 1) c1 tr2 err1
                 else (err1, tr2))
            | _ \<Rightarrow> (err1, tr2)))
      else (err, tr))"
  by pat_completeness auto
termination
  by (relation "measure (\<lambda>(attemptTimes, i, c, tr, err). nat (attemptTimes - i))") auto

declare attemptConnWrite_loop.simps [simp del]

definition streamSession_attemptConnWrite :: "conn \<Rightarrow> int \<Rightarrow> conn_error option \<times> event list" where
  "streamSession_attemptConnWrite c attemptTimes = attemptConnWrite_loop attemptTimes 0 c [] None"

definition wsSession_attemptConnWrite :: "conn \<Rightarrow> int \<Rightarrow> conn_error option \<times> event list" where
  "wsSession_attemptConnWrite c attemptTimes = attemptConnWrite_loop attemptTimes 0 c [] None"

text \<open>
  \<open>routeContext\<close>. Handlers, sessions and engines are identified by numbers; \<open>storage\<close> is
  \<open>nil\<close> or a map; \<open>rawCtx\<close> is \<open>context.Background()\<close> or a derived context.
\<close>

datatype rawContext = Background | Derived nat

record routeContext =
  rawCtx :: rawContext
  Params :: "string \<rightharpoonup> string"
  storage :: "(string \<rightharpoonup> string) option"
  Method :: string
  Path :: string
  handlers :: "nat list"
  index :: int
  reqMsg :: "Message option"
  rspMsg :: "Message option"
  session :: "nat option"
  engine :: "nat option"

definition NewContext :: routeContext where
  "NewContext = \<lparr>rawCtx = Background, Params = Map.empty, storage = None, Method = [], Path = [],
     handlers = [], index = 0, reqMsg = None, rspMsg = None, session = None, engine = None\<rparr>"

definition reset :: "routeContext \<Rightarrow> routeContext" where
  "reset c = c\<lparr>rawCtx := Background, session := None, reqMsg := None, rspMsg := None,
     storage := None\<rparr>"

definition SetSession :: "routeContext \<Rightarrow> nat \<Rightarrow> routeContext" where
  "SetSession c sess = c\<lparr>session := Some sess\<rparr>"

text \<open>
  \<open>ctxPool\<close> is a \<open>sync.Pool\<close> whose \<open>New\<close> is \<open>NewContext\<close>: \<open>Get\<close> takes a context that
  was put back, or makes a new one when there is none.
\<close>

definition ctxPool_Get :: "routeContext list \<Rightarrow> routeContext \<times> routeContext list" where
  "ctxPool_Get pool = (case pool of [] \<Rightarrow> (NewContext, []) | c # cs \<Rightarrow> (c, cs))"

definition AllocateContext :: "nat \<Rightarrow> routeContext list \<Rightarrow> routeContext \<times> routeContext list" where
  "AllocateContext s pool = (let (c, pool') = ctxPool_Get pool in (SetSession (reset c) s, pool'))"

section \<open>The wire format\<close>

text \<open>
  The layout of a frame as the specification gives it: the header, the total length of what
  follows, and the four length-prefixed fields. \<open>frame_bytes\<close> takes the four bytes of the
  payload-length field as they are on the wire; \<open>wire_frame\<close> is the frame whose
  payload-length field holds the length of the payload.
\<close>

definition frame_bytes ::
  "Header \<Rightarrow> string \<Rightarrow> string \<Rightarrow> byte list \<Rightarrow> byte list \<Rightarrow> byte list \<Rightarrow> byte list" where
  "frame_bytes h sp sm meta plen payload =
     h @ PutUint32 (word_of_nat ((4 + length sp) + (4 + length sm) + (4 + length meta)
                                 + (4 + length payload)))
       @ PutUint32 (word_of_nat (length sp)) @ StringToSliceByte sp
       @ PutUint32 (word_of_nat (length sm)) @ StringToSliceByte sm
       @ PutUint32 (word_of_nat (length meta)) @ meta
       @ plen @ payload"

definition wire_frame :: "Header \<Rightarrow> string \<Rightarrow> string \<Rightarrow> byte list \<Rightarrow> byte list \<Rightarrow> byte list" where
  "wire_frame h sp sm meta payload =
     frame_bytes h sp sm meta (PutUint32 (word_of_nat (length payload))) payload"

text \<open>The message of the example: path Echo, method Call, metadata k = v, payload 01 02.\<close>

definition echo_message :: Message where
  "echo_message = NewRpcMessage\<lparr>ServicePath := ''Echo'', ServiceMethod := ''Call'',
     Metadata := [''k'' \<mapsto> ''v''], Payload := [1, 2]\<rparr>"

text \<open>
  A compressor for the examples, in place of gzip: \<open>Zip\<close> puts a marker byte before the
  payload and \<open>Unzip\<close> removes it; and a registry that has it under the code \<open>Gzip\<close>
  and nothing else.
\<close>

definition marker_compressor :: Compressor where
  "marker_compressor = \<lparr>Zip = (\<lambda>p. (0x1F # p, None)), Unzip = (\<lambda>z. (tl z, None))\<rparr>"

definition gzip_only :: registry where
  "gzip_only ct = (if ct = Gzip then Some marker_compressor else None)"

text \<open>
  An \<open>io.Writer\<close> that appends to a buffer and never fails, and the example message with
  the compression code \<open>Gzip\<close> in its header.
\<close>

definition buffer_Write :: "byte list writer" where
  "buffer_Write w bs = ((length bs, None), w @ bs)"

definition gzip_message :: Message where
  "gzip_message = echo_message\<lparr>Header := SetCompressType (Header echo_message) Gzip\<rparr>"

section \<open>Statement of the write attempts\<close>

text \<open>
  For the statement about the write attempts: a result of a write is retried when it is a
  \<open>net.Error\<close> that is temporary and not a timeout; \<open>attempts i k\<close> is the trace of \<open>k\<close>
  attempts from attempt index \<open>i\<close> on, each a sleep of the index times the base delay and
  then the physical write.
\<close>

definition retryable :: "conn_error option \<Rightarrow> bool" where
  "retryable r =
     (case r of Some (NetError timeout temporary) \<Rightarrow> \<not> timeout \<and> temporary | _ \<Rightarrow> False)"

definition attempts :: "int \<Rightarrow> nat \<Rightarrow> event list" where
  "attempts i k = concat (map (\<lambda>j. [Sleep (tempErrDelay * (i + int j)), Write]) [0..<k])"

section \<open>Facts about bytes and header flags\<close>

lemma byte_eqI:
  fixes a b :: byte
  assumes "bit a 0 = bit b 0" "bit a 1 = bit b 1" "bit a 2 = bit b 2" "bit a 3 = bit b 3"
    "bit a 4 = bit b 4" "bit a 5 = bit b 5" "bit a 6 = bit b 6" "bit a 7 = bit b 7"
  shows "a = b"
proof (rule bit_word_eqI)
  fix n assume "n < LENGTH(8)"
  then have "n < 8" by simp
  then consider "n = 0" | "n = 1" | "n = 2" | "n = 3" | "n = 4" | "n = 5" | "n = 6" | "n = 7"
    by arith
  then show "bit a n = bit b n"
    using assms by cases simp_all
qed

lemma flag_set:
  "((x::byte) OR 0x40) AND 0x40 = 0x40"
  "((x::byte) OR 0x20) AND 0x20 = 0x20"
  by (rule byte_eqI; simp add: bit_simps)+

lemma flag_clear:
  "((x::byte) AND NOT 0x40) AND 0x40 = 0"
  "((x::byte) AND NOT 0x20) AND 0x20 = 0"
  by (rule byte_eqI; simp add: bit_simps)+

lemma IsHeartbeat_SetHeartbeat: "length h = 12 \<Longrightarrow> IsHeartbeat (SetHeartbeat h b) = b"
  using flag_clear(1) [of "h ! 2"] by (simp add: IsHeartbeat_def SetHeartbeat_def flag_set)

lemma IsOneway_SetOneway: "length h = 12 \<Longrightarrow> IsOneway (SetOneway h b) = b"
  using flag_clear(2) [of "h ! 2"] by (simp add: IsOneway_def SetOneway_def flag_set)

lemma CompressType_SetCompressType:
  "length h = 12 \<Longrightarrow> CompressType (SetCompressType h c) = c AND 7"
  unfolding CompressType_def SetCompressType_def
  by simp (rule byte_eqI; simp add: bit_simps)

lemma MessageStatusType_SetMessageStatusType:
  "length h = 12 \<Longrightarrow> MessageStatusType (SetMessageStatusType h c) = c AND 3"
  unfolding MessageStatusType_def SetMessageStatusType_def
  by simp (rule byte_eqI; simp add: bit_simps)

lemma MessageType_SetMessageType:
  "length h = 12 \<Longrightarrow> MessageType (SetMessageType h t) = MessageType h OR (t AND 1)"
  unfolding MessageType_def SetMessageType_def
  by simp (rule byte_eqI; simp add: bit_simps)

section \<open>Header setters\<close>

text \<open>
  C10. \<open>SetMessageType\<close> only ORs the message-type bit into bit 7 of the flag byte and never
  clears it: the message type after the call is the old one ORed with the low bit of the
  argument, so on a header whose message type is \<open>Response\<close>, \<open>SetMessageType(Request)\<close>
  leaves \<open>MessageType()\<close> equal to \<open>Response\<close> and the round trip of setter and getter fails
  for \<open>Request\<close>. The heartbeat, oneway, compression and status setters mask before they set,
  and read back what was set (in the width of their field).
\<close>

theorem SetMessageType_never_clears:
  assumes "length h = 12" and "MessageType h = Response"
  shows "MessageType (SetMessageType h Request) = Response
       \<and> MessageType (SetMessageType h Request) \<noteq> Request
       \<and> MessageType (SetMessageType h t) = MessageType h OR (t AND 1)
       \<and> IsHeartbeat (SetHeartbeat h b) = b
       \<and> IsOneway (SetOneway h b) = b
       \<and> CompressType (SetCompressType h ct) = ct AND 7
       \<and> MessageStatusType (SetMessageStatusType h st) = st AND 3"
  using assms
  by (simp add: MessageType_SetMessageType IsHeartbeat_SetHeartbeat IsOneway_SetOneway
      CompressType_SetCompressType MessageStatusType_SetMessageStatusType Request_def Response_def)

theorem SetMessageType_never_clears_witness:
  "length [8, 0, 0x80, 0, 0, 0, 0, 0, 0, 0, 0, 0 :: byte] = 12
   \<and> MessageType [8, 0, 0x80, 0, 0, 0, 0, 0, 0, 0, 0, 0] = Response
   \<and> MessageType (SetMessageType [8, 0, 0x80, 0, 0, 0, 0, 0, 0, 0, 0, 0] Request) = Response
   \<and> MessageType (SetMessageType [8, 0, 0x80, 0, 0, 0, 0, 0, 0, 0, 0, 0] Request) \<noteq> Request"
proof -
  have l: "length [8, 0, 0x80, 0, 0, 0, 0, 0, 0, 0, 0, 0 :: byte] = 12"
    by simp
  have r: "MessageType [8, 0, 0x80, 0, 0, 0, 0, 0, 0, 0, 0, 0] = Response"
    by (simp add: MessageType_def Response_def)
  show ?thesis
    using l r SetMessageType_never_clears [OF l r, of Request True 1 1] by blast
qed

section \<open>Contexts of the session pool\<close>

lemma AllocateContext_fields:
  "fst (AllocateContext s (c # pool)) =
     c\<lparr>rawCtx := Background, session := Some s, reqMsg := None, rspMsg := None, storage := None\<rparr>"
  by (simp add: AllocateContext_def ctxPool_Get_def reset_def SetSession_def)

text \<open>
  C8. \<open>AllocateContext\<close> resets the context it takes from the pool before it attaches the
  session: the request and the response message, the key-value store and the cancellation
  scope are cleared. The claim also has the cursor of the middleware chain and the list of
  handlers cleared; \<open>reset\<close> does not touch \<open>index\<close> and \<open>handlers\<close>. Here a context that
  went back to the pool with two handlers and the cursor at 2 comes out of
  \<open>AllocateContext\<close> with both unchanged, while its request message is cleared.
\<close>

theorem AllocateContext_keeps_cursor_and_handlers:
  "index (fst (AllocateContext 1
      [NewContext\<lparr>handlers := [10, 11], index := 2, reqMsg := Some NewRpcMessage\<rparr>])) = 2
   \<and> handlers (fst (AllocateContext 1
      [NewContext\<lparr>handlers := [10, 11], index := 2, reqMsg := Some NewRpcMessage\<rparr>])) = [10, 11]
   \<and> reqMsg (fst (AllocateContext 1
      [NewContext\<lparr>handlers := [10, 11], index := 2, reqMsg := Some NewRpcMessage\<rparr>])) = None"
  by (simp add: AllocateContext_fields)

section \<open>Closing a session\<close>

lemma Close_calls_done: "closeOnce s \<Longrightarrow> Close_calls cs s = Return s"
  by (induction cs) (simp_all add: Close_def closeOnce_Do_def and_then_def)

lemma Close_newSession:
  "Close newSession = Return \<lparr>closed = True, closeOnce = True, fired = 1\<rparr>"
  by (simp add: Close_def closeOnce_Do_def close_closed_def newSession_def)

text \<open>
  C6. On a new session, any number (at least one) of calls of \<open>Close\<close>, by whichever callers
  and in whichever order they take effect, closes the channel \<open>closed\<close> exactly once and no
  call panics: the result is that of the first call, and \<open>Close\<close> on the closed session
  returns it unchanged.
\<close>

theorem Close_fires_once:
  assumes "callers \<noteq> []"
  shows "Close_calls callers newSession = Return \<lparr>closed = True, closeOnce = True, fired = 1\<rparr>
       \<and> Close_calls callers newSession = Close newSession
       \<and> Close \<lparr>closed = True, closeOnce = True, fired = 1\<rparr>
           = Return \<lparr>closed = True, closeOnce = True, fired = 1\<rparr>"
proof (cases callers)
  case Nil
  with assms show ?thesis by simp
next
  case (Cons c cs)
  have "Close_calls cs \<lparr>closed = True, closeOnce = True, fired = 1\<rparr>
          = Return \<lparr>closed = True, closeOnce = True, fired = 1\<rparr>"
    by (rule Close_calls_done) simp
  then show ?thesis
    using Cons by (simp add: Close_newSession and_then_def) (simp add: Close_def closeOnce_Do_def)
qed

theorem Close_fires_once_witness:
  "[1, 2, 1, 3::nat] \<noteq> []
   \<and> Close_calls [1, 2, 1, 3::nat] newSession
       = Return \<lparr>closed = True, closeOnce = True, fired = 1\<rparr>"
  using Close_fires_once [of "[1, 2, 1, 3::nat]"] by simp

section \<open>The length limit\<close>

lemma header_first:
  "r \<noteq> [] \<Longrightarrow> length h = 12 \<Longrightarrow> copy_at h 0 (take (Suc 0) r) = r ! 0 # drop (Suc 0) h"
  by (cases r) (simp_all add: copy_at_def)

lemma header_rest:
  "11 \<le> length bs \<Longrightarrow> length h = 12 \<Longrightarrow>
   copy_at (x # drop (Suc 0) h) (Suc 0) (take 11 bs) = x # take 11 bs"
  by (simp add: copy_at_def)

lemma take_12: "12 \<le> length r \<Longrightarrow> take 12 r = r ! 0 # take 11 (drop (Suc 0) r)"
  by (cases r) simp_all

text \<open>
  C3. With \<open>MaxRpcMessageLength = L > 0\<close> and a stream that holds a header with the magic
  number and a total-length field greater than \<open>L\<close>, \<open>Decode\<close> fails with
  \<open>ErrRpcMessageTooLong\<close>; it has consumed the 12 bytes of the header and the 4 bytes of the
  length, the rest of the stream is untouched, and of the message only the header has changed.
\<close>

theorem Decode_too_long:
  assumes "0 < L" and "16 \<le> length r" and "r ! 0 = magicNumber" and "length (Header m) = 12"
    and "L < uint (Uint32 (take 4 (drop 12 r)))"
  shows "Decode Compressors L m r
         = Return (m\<lparr>Header := take 12 r\<rparr>, Some ErrRpcMessageTooLong, drop 16 r)"
proof -
  have ne: "r \<noteq> []" and l12: "12 \<le> length r"
    using assms(2) by auto
  have a: "11 \<le> length r - Suc 0" "4 \<le> length r - 12"
    using assms(2) by simp_all
  show ?thesis
    using assms a
    by (simp add: Decode_def ReadFull_def Let_def header_first [OF ne] header_rest take_12 [OF l12]
        CheckMagicNumber_def)
qed

theorem Decode_too_long_witness:
  "(0::int) < 255 \<and> 16 \<le> length [8, 0, 0, 0, 0, 0, 0, 0, 0, 0, 0, 0, 0, 0, 1, 0, 1, 2, 3 :: byte]
   \<and> Decode (\<lambda>_. None) 255 NewRpcMessage [8, 0, 0, 0, 0, 0, 0, 0, 0, 0, 0, 0, 0, 0, 1, 0, 1, 2, 3]
       = Return (NewRpcMessage\<lparr>Header := [8, 0, 0, 0, 0, 0, 0, 0, 0, 0, 0, 0]\<rparr>,
                 Some ErrRpcMessageTooLong, [1, 2, 3])"
  using Decode_too_long [of 255 "[8, 0, 0, 0, 0, 0, 0, 0, 0, 0, 0, 0, 0, 0, 1, 0, 1, 2, 3]"
      NewRpcMessage "\<lambda>_. None"]
  by (simp add: magicNumber_def NewRpcMessage_def Uint32_def)

section \<open>Malformed metadata\<close>

text \<open>
  C2. The claim: on a metadata section whose lengths are inconsistent, \<open>decodeMetadata\<close>
  returns \<open>ErrMetaKVMissing\<close> and never panics or reads outside the section. The code
  panics instead: with a declared length of 2 (shorter than a length field) the key length is
  read from \<open>data[0:4]\<close>, out of range of the two bytes; with a key length of \<open>0xFFFFFFFF\<close>
  the cursor wraps around, the check \<open>n+sl > l-4\<close> passes and \<open>data[4:3]\<close> panics; and a frame
  that declares a metadata length of 2 makes \<open>Read\<close> panic, after a key length read across the
  end of the section.
\<close>

theorem decodeMetadata_panics:
  "decodeMetadata 2 \<lparr>backing = [0, 0], slen = 2\<rparr> = Panic
   \<and> decodeMetadata 8 \<lparr>backing = [0xFF, 0xFF, 0xFF, 0xFF, 0, 0, 0, 0], slen = 8\<rparr> = Panic
   \<and> Read (\<lambda>_. None) 0
        ([8, 0, 0, 0, 0, 0, 0, 0, 0, 0, 0, 0] @ [0, 0, 0, 18] @ [0, 0, 0, 0] @ [0, 0, 0, 0]
          @ [0, 0, 0, 2, 0, 0] @ [0, 0, 0, 0]) = Panic"
proof (intro conjI)
  show "decodeMetadata 2 \<lparr>backing = [0, 0], slen = 2\<rparr> = Panic"
    by (simp add: decodeMetadata_def decodeMetadata_loop.simps reslice_def cap_s_def)
  show "decodeMetadata 8 \<lparr>backing = [0xFF, 0xFF, 0xFF, 0xFF, 0, 0, 0, 0], slen = 8\<rparr> = Panic"
    by (simp add: decodeMetadata_def decodeMetadata_loop.simps reslice_def cap_s_def bytes_of_def
        Uint32_def)
  show "Read (\<lambda>_. None) 0
        ([8, 0, 0, 0, 0, 0, 0, 0, 0, 0, 0, 0] @ [0, 0, 0, 18] @ [0, 0, 0, 0] @ [0, 0, 0, 0]
          @ [0, 0, 0, 2, 0, 0] @ [0, 0, 0, 0]) = Panic"
    by (simp add: Read_def Decode_def Decode_body_def ReadFull_def NewRpcMessage_def copy_at_def
        CheckMagicNumber_def magicNumber_def Uint32_def nil_slice_def cap_s_def and_then_def
        slice_expr_def reslice_def bytes_of_def Let_def decodeMetadata_def
        decodeMetadata_loop.simps)
qed

section \<open>Write attempts\<close>

lemma attempts_Suc: "attempts i (Suc k) = [Sleep (tempErrDelay * i), Write] @ attempts (i + 1) k"
proof -
  have "[0..<Suc k] = 0 # map Suc [0..<k]"
    by (simp add: upt_conv_Cons map_Suc_upt del: upt_Suc)
  then show ?thesis
    by (simp add: attempts_def comp_def add.commute add.left_commute del: upt_Suc)
qed

lemma count_attempts: "length (filter (\<lambda>e. e = Write) (attempts i k)) = k"
  by (induction k arbitrary: i) (simp_all add: attempts_Suc, simp add: attempts_def)

lemma retryable_cases: "retryable r \<Longrightarrow> r = Some (NetError False True)"
  by (auto simp: retryable_def split: option.splits conn_error.splits)

lemma loop_stop:
  assumes "i < A" and "c 0 = None \<or> i = A - 1 \<or> \<not> retryable (c 0)"
  shows "attemptConnWrite_loop A i c tr err = (c 0, tr @ [Sleep (tempErrDelay * i), Write])"
proof (cases "c 0")
  case None
  then show ?thesis
    using assms(1) by (subst attemptConnWrite_loop.simps) (simp add: conn_Write_def)
next
  case (Some e)
  then show ?thesis
    using assms
    by (subst attemptConnWrite_loop.simps)
       (cases e; auto simp add: conn_Write_def retryable_def Let_def)
qed

lemma loop_retry:
  assumes "i < A" and "i \<noteq> A - 1" and "retryable (c 0)"
  shows "attemptConnWrite_loop A i c tr err =
         attemptConnWrite_loop A (i + 1) (\<lambda>k. c (Suc k))
           (tr @ [Sleep (tempErrDelay * i), Write]) (c 0)"
  using assms(1,2) retryable_cases [OF assms(3)]
  by (subst attemptConnWrite_loop.simps) (simp add: conn_Write_def)

lemma loop_spec:
  assumes "i < A"
  shows "\<exists>k. 1 \<le> k \<and> i + int k \<le> A
           \<and> attemptConnWrite_loop A i c tr err = (c (k - 1), tr @ attempts i k)
           \<and> (\<forall>j<k - 1. retryable (c j))
           \<and> (c (k - 1) = None \<or> \<not> retryable (c (k - 1)) \<or> i + int k = A)"
  using assms
proof (induction "nat (A - i)" arbitrary: i c tr err)
  case 0
  then show ?case by simp
next
  case (Suc n)
  show ?case
  proof (cases "c 0 = None \<or> i = A - 1 \<or> \<not> retryable (c 0)")
    case True
    have "attemptConnWrite_loop A i c tr err = (c 0, tr @ attempts i 1)"
      using loop_stop [of i A c tr err, OF Suc.prems True] by (simp add: attempts_def)
    moreover have "c 0 = None \<or> \<not> retryable (c 0) \<or> i + 1 = A"
      using True by auto
    ultimately show ?thesis
      using Suc.prems by (intro exI [of _ 1]) simp
  next
    case False
    then have r: "retryable (c 0)" and ne: "i \<noteq> A - 1"
      by auto
    have lt: "i + 1 < A"
      using Suc.prems ne by simp
    have n: "n = nat (A - (i + 1))"
      using Suc.hyps(2) by simp
    obtain k where k: "1 \<le> k" "i + 1 + int k \<le> A"
      "attemptConnWrite_loop A (i + 1) (\<lambda>k. c (Suc k)) (tr @ [Sleep (tempErrDelay * i), Write]) (c 0)
         = (c (Suc (k - 1)), (tr @ [Sleep (tempErrDelay * i), Write]) @ attempts (i + 1) k)"
      "\<forall>j<k - 1. retryable (c (Suc j))"
      "c (Suc (k - 1)) = None \<or> \<not> retryable (c (Suc (k - 1))) \<or> i + 1 + int k = A"
      using Suc.hyps(1) [OF n lt, of "\<lambda>k. c (Suc k)" "tr @ [Sleep (tempErrDelay * i), Write]" "c 0"]
      by blast
    have all: "\<forall>j<Suc k - 1. retryable (c j)"
    proof (intro allI impI)
      fix j assume "j < Suc k - 1"
      then show "retryable (c j)"
        using r k(1,4) by (cases j) auto
    qed
    have "attemptConnWrite_loop A i c tr err = (c (Suc k - 1), tr @ attempts i (Suc k))"
      using loop_retry [of i A c tr err, OF Suc.prems ne r] k(1,3) by (simp add: attempts_Suc)
    then show ?thesis
      using k(1,2,5) all by (intro exI [of _ "Suc k"]) (simp add: algebra_simps)
  qed
qed

text \<open>
  C7. With an attempt count \<open>A \<ge> 1\<close>, \<open>attemptConnWrite\<close> of the stream session and of the
  websocket session makes \<open>k\<close> physical writes, \<open>1 \<le> k \<le> A\<close>, each after a sleep of its
  attempt index times \<open>tempErrDelay\<close> (none before the first); every write before the last
  failed with a temporary network error that was not a timeout; the last write succeeded, or
  failed with a timeout or an error that is not a temporary network error, or was attempt
  \<open>A\<close>; the result is that of the last write.
\<close>

theorem attemptConnWrite_bounded_retries:
  assumes "1 \<le> A"
  shows "\<exists>k. 1 \<le> k \<and> int k \<le> A
           \<and> streamSession_attemptConnWrite c A = (c (k - 1), attempts 0 k)
           \<and> wsSession_attemptConnWrite c A = (c (k - 1), attempts 0 k)
           \<and> length (filter (\<lambda>e. e = Write) (snd (streamSession_attemptConnWrite c A))) = k
           \<and> (\<forall>j<k - 1. retryable (c j))
           \<and> (c (k - 1) = None \<or> \<not> retryable (c (k - 1)) \<or> int k = A)"
proof -
  have "0 < A" using assms by simp
  from loop_spec [OF this, of c "[]" None]
  show ?thesis
    by (auto simp: streamSession_attemptConnWrite_def wsSession_attemptConnWrite_def
        count_attempts)
qed

theorem attemptConnWrite_bounded_retries_witness:
  "(1::int) \<le> 3
   \<and> (\<exists>k. 1 \<le> k \<and> int k \<le> 3
        \<and> streamSession_attemptConnWrite (\<lambda>n. if n < 2 then Some (NetError False True) else None) 3
            = ((\<lambda>n. if n < 2 then Some (NetError False True) else None) (k - 1), attempts 0 k)
        \<and> length (filter (\<lambda>e. e = Write) (snd (streamSession_attemptConnWrite
              (\<lambda>n. if n < 2 then Some (NetError False True) else None) 3))) = k)"
  using attemptConnWrite_bounded_retries
    [of 3 "\<lambda>n. if n < 2 then Some (NetError False True) else None"]
  by auto

section \<open>Facts about the codec\<close>

lemma length_PutUint32 [simp]: "length (PutUint32 v) = 4"
  by (simp add: PutUint32_def)

lemma length_StringToSliceByte [simp]: "length (StringToSliceByte s) = length s"
  by (simp add: StringToSliceByte_def)

lemma Uint32_PutUint32 [simp]: "Uint32 (PutUint32 v) = v"
  unfolding Uint32_def PutUint32_def
  apply simp
  apply (rule bit_word_eqI)
  apply (auto simp add: bit_simps not_less)
  subgoal for n by (cases "n < 24") (auto simp: not_less)
  done

lemma SliceByteToString_inverse [simp]: "SliceByteToString (StringToSliceByte s) = s"
  unfolding SliceByteToString_def StringToSliceByte_def
  by (simp add: comp_def unat_of_nat map_idI)

lemma unat_W: "a < 2 ^ 32 \<Longrightarrow> unat (word_of_nat a :: uint32) = a"
  by (simp add: unat_of_nat)

lemma W_less: "a < 2 ^ 32 \<Longrightarrow> b < 2 ^ 32 \<Longrightarrow> ((word_of_nat a :: uint32) < word_of_nat b) = (a < b)"
  by (simp add: word_less_nat_alt unat_W)

lemma loop_step:
  assumes "n < l"
    and "reslice d (unat n) (unat (n + 4)) = Some b1"
    and "Uint32 (bytes_of b1) = s1"
    and "\<not> n + 4 + s1 > l - 4"
    and "reslice d (unat (n + 4)) (unat (n + 4 + s1)) = Some kb"
    and "reslice d (unat (n + 4 + s1)) (unat (n + 4 + s1 + 4)) = Some b2"
    and "Uint32 (bytes_of b2) = s2"
    and "\<not> n + 4 + s1 + 4 + s2 > l"
    and "reslice d (unat (n + 4 + s1 + 4)) (unat (n + 4 + s1 + 4 + s2)) = Some vb"
  shows "decodeMetadata_loop l d n m =
         decodeMetadata_loop l d (n + 4 + s1 + 4 + s2)
           (m(SliceByteToString (bytes_of kb) \<mapsto> SliceByteToString (bytes_of vb)))"
  by (subst decodeMetadata_loop.simps)
     (simp only: assms if_True if_False option.case)

lemma loop_end: "\<not> n < l \<Longrightarrow> decodeMetadata_loop l d n m = Return (m, None)"
  by (subst decodeMetadata_loop.simps) simp

lemma reslice_mid:
  assumes "backing d = pre @ x @ post" and "lo = length pre" and "hi = length pre + length x"
  shows "reslice d lo hi = Some \<lparr>backing = x @ post, slen = length x\<rparr>"
  using assms by (simp add: reslice_def cap_s_def)

lemma bytes_of_mid [simp]: "n = length x \<Longrightarrow> bytes_of \<lparr>backing = x @ post, slen = n\<rparr> = x"
  by (simp add: bytes_of_def)

lemma encodeMetadata_acc: "encodeMetadata kvs bb = bb @ encodeMetadata kvs []"
proof (induction kvs arbitrary: bb)
  case Nil
  show ?case by simp
next
  case (Cons kv kvs)
  obtain k v where kv: "kv = (k, v)" by (cases kv)
  show ?case
    unfolding kv encodeMetadata.simps
    by (subst Cons.IH, subst (2) Cons.IH) simp
qed

lemma encodeMetadata_Cons:
  "encodeMetadata ((k, v) # kvs) [] =
     (PutUint32 (word_of_nat (length k)) @ StringToSliceByte k
       @ PutUint32 (word_of_nat (length v)) @ StringToSliceByte v) @ encodeMetadata kvs []"
  by (simp, subst encodeMetadata_acc, simp)

lemma decodeMetadata_loop_encoded:
  assumes "backing d = pre @ encodeMetadata kvs [] @ post"
    and "L = length pre + length (encodeMetadata kvs [])"
    and "L < 2 ^ 32"
  shows "decodeMetadata_loop (word_of_nat L) d (word_of_nat (length pre)) m
         = Return (foldl (\<lambda>m (k, v). m(k \<mapsto> v)) m kvs, None)"
  using assms
proof (induction kvs arbitrary: pre m)
  case Nil
  then show ?case by (simp add: loop_end)
next
  case (Cons kv kvs)
  obtain k v where kv: "kv = (k, v)" by (cases kv)
  define K4 where "K4 = PutUint32 (word_of_nat (length k))"
  define V4 where "V4 = PutUint32 (word_of_nat (length v))"
  define kb where "kb = StringToSliceByte k"
  define vb where "vb = StringToSliceByte v"
  define rest where "rest = encodeMetadata kvs []"
  define p where "p = length pre"
  have enc: "encodeMetadata (kv # kvs) [] = (K4 @ kb @ V4 @ vb) @ rest"
    unfolding kv encodeMetadata_Cons K4_def V4_def kb_def vb_def rest_def ..
  have len: "length K4 = 4" "length V4 = 4" "length kb = length k" "length vb = length v"
    by (simp_all add: K4_def V4_def kb_def vb_def)
  have L: "L = p + 4 + length k + 4 + length v + length rest"
    using Cons.prems(2) by (simp add: enc len p_def)
  have bd: "backing d = pre @ K4 @ kb @ V4 @ vb @ rest @ post"
    using Cons.prems(1) by (simp add: enc)
  note lt = Cons.prems(3)
  have n1: "(word_of_nat p :: uint32) + 4 = word_of_nat (p + 4)" by simp
  have n2: "(word_of_nat (p + 4) :: uint32) + word_of_nat (length k) = word_of_nat (p + 4 + length k)"
    by simp
  have n3: "(word_of_nat (p + 4 + length k) :: uint32) + 4 = word_of_nat (p + 4 + length k + 4)"
    by simp
  have n4: "(word_of_nat (p + 4 + length k + 4) :: uint32) + word_of_nat (length v)
            = word_of_nat (p + 4 + length k + 4 + length v)"
    by simp
  have u0: "unat (word_of_nat p :: uint32) = p"
    using L lt by (intro unat_W) simp
  have u1: "unat (word_of_nat (p + 4) :: uint32) = p + 4"
    using L lt by (intro unat_W) simp
  have u2: "unat (word_of_nat (p + 4 + length k) :: uint32) = p + 4 + length k"
    using L lt by (intro unat_W) simp
  have u3: "unat (word_of_nat (p + 4 + length k + 4) :: uint32) = p + 4 + length k + 4"
    using L lt by (intro unat_W) simp
  have u4: "unat (word_of_nat (p + 4 + length k + 4 + length v) :: uint32) = p + 4 + length k + 4 + length v"
    using L lt by (intro unat_W) simp
  have uL: "unat (word_of_nat L :: uint32) = L"
    using lt by (rule unat_W)
  have b0: "p < L" and b1: "p + 4 + length k \<le> L - 4" and b2: "p + 4 + length k + 4 + length v \<le> L"
    using L by simp_all
  have c0: "(word_of_nat p :: uint32) < word_of_nat L"
    unfolding word_less_nat_alt u0 uL using b0 .
  have r1: "reslice d (unat (word_of_nat p :: uint32)) (unat ((word_of_nat p :: uint32) + 4))
            = Some \<lparr>backing = K4 @ (kb @ V4 @ vb @ rest @ post), slen = length K4\<rparr>"
    unfolding n1 u0 u1 by (rule reslice_mid [where pre = pre]) (simp_all add: bd p_def len)
  have s1: "Uint32 (bytes_of \<lparr>backing = K4 @ (kb @ V4 @ vb @ rest @ post), slen = length K4\<rparr>)
            = word_of_nat (length k)"
    by (simp add: K4_def)
  have sub: "(word_of_nat L :: uint32) - 4 = word_of_nat (L - 4)"
    using L by simp
  have uL4: "unat (word_of_nat (L - 4) :: uint32) = L - 4"
    using lt by (intro unat_W) simp
  have c1: "\<not> (word_of_nat p :: uint32) + 4 + word_of_nat (length k) > word_of_nat L - 4"
    unfolding n1 n2 sub word_less_nat_alt u2 uL4 using b1 by simp
  have r2: "reslice d (unat ((word_of_nat p :: uint32) + 4)) (unat ((word_of_nat p :: uint32) + 4 + word_of_nat (length k)))
            = Some \<lparr>backing = kb @ (V4 @ vb @ rest @ post), slen = length kb\<rparr>"
    unfolding n1 n2 u1 u2 by (rule reslice_mid [where pre = "pre @ K4"]) (simp_all add: bd p_def len)
  have r3: "reslice d (unat ((word_of_nat p :: uint32) + 4 + word_of_nat (length k)))
              (unat ((word_of_nat p :: uint32) + 4 + word_of_nat (length k) + 4))
            = Some \<lparr>backing = V4 @ (vb @ rest @ post), slen = length V4\<rparr>"
    unfolding n1 n2 n3 u2 u3 by (rule reslice_mid [where pre = "pre @ K4 @ kb"]) (simp_all add: bd p_def len)
  have s2: "Uint32 (bytes_of \<lparr>backing = V4 @ (vb @ rest @ post), slen = length V4\<rparr>)
            = word_of_nat (length v)"
    by (simp add: V4_def)
  have c2: "\<not> (word_of_nat p :: uint32) + 4 + word_of_nat (length k) + 4 + word_of_nat (length v) > word_of_nat L"
    unfolding n1 n2 n3 n4 word_less_nat_alt u4 uL using b2 by simp
  have r4: "reslice d (unat ((word_of_nat p :: uint32) + 4 + word_of_nat (length k) + 4))
              (unat ((word_of_nat p :: uint32) + 4 + word_of_nat (length k) + 4 + word_of_nat (length v)))
            = Some \<lparr>backing = vb @ (rest @ post), slen = length vb\<rparr>"
    unfolding n1 n2 n3 n4 u3 u4
    by (rule reslice_mid [where pre = "pre @ K4 @ kb @ V4"]) (simp_all add: bd p_def len)
  have step: "decodeMetadata_loop (word_of_nat L) d (word_of_nat p) m =
         decodeMetadata_loop (word_of_nat L) d (word_of_nat (p + 4 + length k + 4 + length v))
           (m(k \<mapsto> v))"
    using loop_step [OF c0 r1 s1 c1 r2 r3 s2 c2 r4, of m]
    unfolding n1 n2 n3 n4 by (simp add: kb_def vb_def)
  have pl: "p + 4 + length k + 4 + length v = length (pre @ K4 @ kb @ V4 @ vb)"
    by (simp add: p_def len)
  have ih: "decodeMetadata_loop (word_of_nat L) d (word_of_nat (p + 4 + length k + 4 + length v)) (m(k \<mapsto> v))
        = Return (foldl (\<lambda>m (k, v). m(k \<mapsto> v)) (m(k \<mapsto> v)) kvs, None)"
    unfolding pl
  proof (rule Cons.IH)
    show "backing d = (pre @ K4 @ kb @ V4 @ vb) @ encodeMetadata kvs [] @ post"
      by (simp add: bd rest_def)
    show "L = length (pre @ K4 @ kb @ V4 @ vb) + length (encodeMetadata kvs [])"
      using L by (simp add: len p_def rest_def)
    show "L < 2 ^ 32" by (rule lt)
  qed
  have "decodeMetadata_loop (word_of_nat L) d (word_of_nat p) m
        = Return (foldl (\<lambda>m (k, v). m(k \<mapsto> v)) (m(k \<mapsto> v)) kvs, None)"
    by (simp only: step ih)
  then show ?case
    unfolding p_def kv by (simp only: foldl_Cons prod.case)
qed


lemma decodeMetadata_encoded:
  assumes "length (encodeMetadata kvs []) < 2 ^ 32"
  shows "decodeMetadata (word_of_nat (length (encodeMetadata kvs [])))
           \<lparr>backing = encodeMetadata kvs [] @ post, slen = n\<rparr>
         = Return (foldl (\<lambda>m (k, v). m(k \<mapsto> v)) Map.empty kvs, None)"
  unfolding decodeMetadata_def
  using decodeMetadata_loop_encoded [of "\<lparr>backing = encodeMetadata kvs [] @ post, slen = n\<rparr>" "[]" kvs post
      "length (encodeMetadata kvs [])" Map.empty] assms
  by simp

lemma encodeMetadata_empty_iff: "encodeMetadata kvs [] = [] \<longleftrightarrow> kvs = []"
proof (cases kvs)
  case Nil
  then show ?thesis by simp
next
  case (Cons kv kvs')
  obtain k v where kv: "kv = (k, v)" by (cases kv)
  have "encodeMetadata kvs [] =
     (PutUint32 (word_of_nat (length k)) @ StringToSliceByte k
       @ PutUint32 (word_of_nat (length v)) @ StringToSliceByte v) @ encodeMetadata kvs' []"
    unfolding Cons kv by (rule encodeMetadata_Cons)
  then show ?thesis
    using Cons by (simp add: PutUint32_def)
qed

lemma Decode_body_frame:
  assumes bd: "backing (data m) =
      PutUint32 (word_of_nat (length sp)) @ StringToSliceByte sp
      @ PutUint32 (word_of_nat (length sm)) @ StringToSliceByte sm
      @ PutUint32 (word_of_nat (length (encodeMetadata kvs []))) @ encodeMetadata kvs []
      @ plen @ payload @ stale"
    and sl: "slen (data m) = 16 + length sp + length sm + length (encodeMetadata kvs []) + length payload"
    and pl: "length plen = 4"
    and lt: "16 + length sp + length sm + length (encodeMetadata kvs []) + length payload < 2 ^ 32"
  shows "Decode_body Compressors m =
         Decode_unzip Compressors
           (m\<lparr>ServicePath := sp, ServiceMethod := sm,
              Metadata := (if kvs = [] then Metadata m else foldl (\<lambda>m (k, v). m(k \<mapsto> v)) Map.empty kvs),
              Payload := payload\<rparr>)"
proof -
  have sp: "unat (word_of_nat (length sp) :: uint32) = length sp"
    and sm: "unat (word_of_nat (length sm) :: uint32) = length sm"
    and me: "unat (word_of_nat (length (encodeMetadata kvs [])) :: uint32) = length (encodeMetadata kvs [])"
    using lt by (simp_all add: unat_W)
  have lm: "length (encodeMetadata kvs []) < 2 ^ 32"
    using lt by simp
  have pos: "(0 < (word_of_nat (length (encodeMetadata kvs [])) :: uint32)) = (kvs \<noteq> [])"
    using me encodeMetadata_empty_iff [of kvs] by (simp add: word_less_nat_alt)
  show ?thesis
    unfolding Decode_body_def Decode_unzip_def
    by (simp add: Let_def and_then_def slice_expr_def reslice_def cap_s_def bytes_of_def bd sl pl sp sm me pos
        decodeMetadata_encoded [OF lm] split: option.split prod.split)
qed


lemma ReadFull_append: "length a = n \<Longrightarrow> ReadFull (a @ b) n = (a, None, b)"
  by (simp add: ReadFull_def)

lemma ReadFull_Cons: "ReadFull (x # xs) (Suc 0) = ([x], None, xs)"
  by (simp add: ReadFull_def)

lemma Decode_reads:
  assumes h: "length h = 12" "h ! 0 = magicNumber"
    and m0: "length (Header m0) = 12"
    and T: "length body = T" "T < 2 ^ 32"
    and lim: "L \<le> 0 \<or> int T \<le> L"
  shows "Decode Compressors L m0 (h @ PutUint32 (word_of_nat T) @ body @ rest) =
         and_then (Decode_body Compressors
             (m0\<lparr>Header := h, data := \<lparr>backing = body @ drop T (backing (data m0)), slen = T\<rparr>\<rparr>))
           (\<lambda>(m4, err). Return (m4, err, rest))"
proof -
  obtain h' where h': "h = magicNumber # h'" "length h' = 11"
    using h by (cases h) auto
  have c1: "copy_at (Header m0) 0 [magicNumber] = magicNumber # drop (Suc 0) (Header m0)"
    using m0 by (simp add: copy_at_def)
  have c2: "copy_at (magicNumber # drop (Suc 0) (Header m0)) (Suc 0) h' = magicNumber # h'"
    using m0 h'(2) by (simp add: copy_at_def)
  have uT: "unat (word_of_nat T :: uint32) = T"
    using T(2) by (rule unat_W)
  have iT: "uint (word_of_nat T :: uint32) = int T"
    using uT by (metis of_nat_unat)
  have cpa: "T \<le> cap_s (data m0) \<Longrightarrow>
             copy_at (backing (data m0)) 0 body = body @ drop T (backing (data m0))"
    using T(1) by (simp add: copy_at_def cap_s_def)
  have cpb: "\<not> T \<le> cap_s (data m0) \<Longrightarrow>
             copy_at (replicate T 0) 0 body = body @ drop T (backing (data m0))"
    using T(1) by (simp add: copy_at_def cap_s_def)
  have rec: "s\<lparr>slen := T, backing := X\<rparr> = \<lparr>backing = X, slen = T\<rparr>" for s :: slice and X
    by (cases s) simp
  have lim': "\<not> (0 < L \<and> L < int T)"
    using lim by auto
  show ?thesis
    unfolding Decode_def h'(1)
    by (simp add: Let_def ReadFull_Cons ReadFull_append [OF h'(2)] ReadFull_append [OF T(1)]
        ReadFull_append [of "PutUint32 w" 4 for w] c1 c2 CheckMagicNumber_def uT iT cpa cpb rec lim')
qed

lemma copy_at_fill:
  "length pre = off \<Longrightarrow> length src \<le> n \<Longrightarrow>
   copy_at (pre @ replicate n 0) off src = (pre @ src) @ replicate (n - length src) 0"
  by (auto simp: copy_at_def)

lemma fill_frame:
  assumes "length h = 12"
  shows "(let spL = length sp; smL = length sm;
          totalL = (4 + spL) + (4 + smL) + (4 + length meta) + (4 + length payload);
          metaStart = 12 + 4 + (4 + spL) + (4 + smL);
          payLoadStart = metaStart + (4 + length meta);
          l = 12 + 4 + totalL;
          d0 = replicate l 0;
          d1 = copy_at d0 0 h;
          d2 = copy_at d1 12 (PutUint32 (word_of_nat totalL));
          d3 = copy_at d2 16 (PutUint32 (word_of_nat spL));
          d4 = copy_at d3 20 (StringToSliceByte sp);
          d5 = copy_at d4 (20 + spL) (PutUint32 (word_of_nat smL));
          d6 = copy_at d5 (24 + spL) (StringToSliceByte sm);
          d7 = copy_at d6 metaStart (PutUint32 (word_of_nat (length meta)));
          d8 = copy_at d7 (metaStart + 4) meta;
          d9 = copy_at d8 payLoadStart (PutUint32 (word_of_nat (length payload)));
          d10 = copy_at d9 (payLoadStart + 4) payload
      in d10) = wire_frame h sp sm meta payload"
proof -
  define T where "T = (4 + length sp) + (4 + length sm) + (4 + length meta) + (4 + length payload)"
  have d1: "copy_at (replicate (12 + 4 + T) 0) 0 h = h @ replicate (4 + T) 0"
    using copy_at_fill [of "[]" 0 h "12 + 4 + T"] assms by simp
  have d2: "copy_at (h @ replicate (4 + T) 0) 12 (PutUint32 x) = (h @ PutUint32 x) @ replicate T 0" for x
    using copy_at_fill [of h 12 "PutUint32 x" "4 + T"] assms by simp
  define p2 where "p2 = h @ PutUint32 (word_of_nat T)"
  have l2: "length p2 = 16" by (simp add: p2_def assms)
  have d3: "copy_at (p2 @ replicate T 0) 16 (PutUint32 x) = (p2 @ PutUint32 x) @ replicate (T - 4) 0" for x
    using copy_at_fill [of p2 16 "PutUint32 x" T] l2 by (simp add: T_def)
  define p3 where "p3 = p2 @ PutUint32 (word_of_nat (length sp))"
  have l3: "length p3 = 20" by (simp add: p3_def l2)
  have d4: "copy_at (p3 @ replicate (T - 4) 0) 20 (StringToSliceByte sp)
            = (p3 @ StringToSliceByte sp) @ replicate (T - 4 - length sp) 0"
    using copy_at_fill [of p3 20 "StringToSliceByte sp" "T - 4"] l3 by (simp add: T_def)
  define p4 where "p4 = p3 @ StringToSliceByte sp"
  have l4: "length p4 = 20 + length sp" by (simp add: p4_def l3)
  have d5: "copy_at (p4 @ replicate (T - 4 - length sp) 0) (20 + length sp) (PutUint32 x)
            = (p4 @ PutUint32 x) @ replicate (T - 4 - length sp - 4) 0" for x
    using copy_at_fill [of p4 "20 + length sp" "PutUint32 x" "T - 4 - length sp"] l4 by (simp add: T_def)
  define p5 where "p5 = p4 @ PutUint32 (word_of_nat (length sm))"
  have l5: "length p5 = 24 + length sp" by (simp add: p5_def l4)
  have d6: "copy_at (p5 @ replicate (T - 4 - length sp - 4) 0) (24 + length sp) (StringToSliceByte sm)
            = (p5 @ StringToSliceByte sm) @ replicate (T - 4 - length sp - 4 - length sm) 0"
    using copy_at_fill [of p5 "24 + length sp" "StringToSliceByte sm" "T - 4 - length sp - 4"] l5
    by (simp add: T_def)
  define p6 where "p6 = p5 @ StringToSliceByte sm"
  define M where "M = 12 + 4 + (4 + length sp) + (4 + length sm)"
  have l6: "length p6 = M" by (simp add: p6_def l5 M_def)
  have d7: "copy_at (p6 @ replicate (T - 4 - length sp - 4 - length sm) 0) M (PutUint32 x)
            = (p6 @ PutUint32 x) @ replicate (4 + length payload + length meta) 0" for x
    using copy_at_fill [of p6 M "PutUint32 x" "T - 4 - length sp - 4 - length sm"] l6
    by (simp add: T_def add.commute)
  define p7 where "p7 = p6 @ PutUint32 (word_of_nat (length meta))"
  have l7: "length p7 = M + 4" by (simp add: p7_def l6)
  have d8: "copy_at (p7 @ replicate (4 + length payload + length meta) 0) (M + 4) meta
            = (p7 @ meta) @ replicate (4 + length payload) 0"
    using copy_at_fill [of p7 "M + 4" meta "4 + length payload + length meta"] l7 by simp
  define p8 where "p8 = p7 @ meta"
  have l8: "length p8 = M + (4 + length meta)" by (simp add: p8_def l7)
  have d9: "copy_at (p8 @ replicate (4 + length payload) 0) (M + (4 + length meta)) (PutUint32 x)
            = (p8 @ PutUint32 x) @ replicate (length payload) 0" for x
    using copy_at_fill [of p8 "M + (4 + length meta)" "PutUint32 x" "4 + length payload"] l8 by simp
  define p9 where "p9 = p8 @ PutUint32 (word_of_nat (length payload))"
  have l9: "length p9 = M + (4 + length meta) + 4" by (simp add: p9_def l8)
  have d10: "copy_at (p9 @ replicate (length payload) 0) (M + (4 + length meta) + 4) payload
            = p9 @ payload"
    using copy_at_fill [of p9 "M + (4 + length meta) + 4" payload "length payload"] l9 by simp
  have "wire_frame h sp sm meta payload = p9 @ payload"
    by (simp add: wire_frame_def frame_bytes_def p9_def p8_def p7_def p6_def p5_def p4_def p3_def p2_def T_def)
  moreover have "copy_at (copy_at (copy_at (copy_at (copy_at (copy_at (copy_at (copy_at (copy_at (copy_at
      (replicate (12 + 4 + T) 0) 0 h) 12 (PutUint32 (word_of_nat T))) 16 (PutUint32 (word_of_nat (length sp))))
      20 (StringToSliceByte sp)) (20 + length sp) (PutUint32 (word_of_nat (length sm))))
      (24 + length sp) (StringToSliceByte sm)) M (PutUint32 (word_of_nat (length meta))))
      (M + 4) meta) (M + (4 + length meta)) (PutUint32 (word_of_nat (length payload))))
      (M + (4 + length meta) + 4) payload = p9 @ payload"
    unfolding d1 d2 p2_def [symmetric] d3 p3_def [symmetric] d4 p4_def [symmetric] d5 p5_def [symmetric]
      d6 p6_def [symmetric] d7 p7_def [symmetric] d8 p8_def [symmetric] d9 p9_def [symmetric] d10 ..
  ultimately show ?thesis
    unfolding Let_def T_def M_def by simp
qed


lemma EncodeSlicePointer_frame:
  assumes "length h = 12"
    and "Encode_zip Compressors m = (h, payload)"
  shows "EncodeSlicePointer Compressors range_md m
         = (wire_frame h (ServicePath m) (ServiceMethod m) (encodeMetadata range_md []) payload, h)"
  unfolding EncodeSlicePointer_def assms(2)
  using fill_frame [OF assms(1), of "ServicePath m" "ServiceMethod m" "encodeMetadata range_md []" payload]
  by (simp add: Let_def)

lemma length_SetCompressType [simp]: "length (SetCompressType h ct) = length h"
  by (simp add: SetCompressType_def)


lemma Decode_frame:
  assumes h: "length h = 12" "h ! 0 = magicNumber"
    and m0: "length (Header m0) = 12"
    and pl: "length plen = 4"
    and T: "T = 16 + length sp + length sm + length (encodeMetadata kvs []) + length payload"
      "T < 2 ^ 32"
    and lim: "L \<le> 0 \<or> int T \<le> L"
  shows "\<exists>D. Decode Compressors L m0
              (frame_bytes h sp sm (encodeMetadata kvs []) plen payload @ rest)
         = and_then (Decode_unzip Compressors
              (m0\<lparr>Header := h, data := D, ServicePath := sp, ServiceMethod := sm,
                  Metadata := (if kvs = [] then Metadata m0
                               else foldl (\<lambda>m (k, v). m(k \<mapsto> v)) Map.empty kvs),
                  Payload := payload\<rparr>))
             (\<lambda>(m4, err). Return (m4, err, rest))"
proof -
  define body where "body =
      PutUint32 (word_of_nat (length sp)) @ StringToSliceByte sp
      @ PutUint32 (word_of_nat (length sm)) @ StringToSliceByte sm
      @ PutUint32 (word_of_nat (length (encodeMetadata kvs []))) @ encodeMetadata kvs []
      @ plen @ payload"
  define stale where "stale = drop T (backing (data m0))"
  define M where "M = m0\<lparr>Header := h, data := \<lparr>backing = body @ stale, slen = T\<rparr>\<rparr>"
  have tot: "(4 + length sp) + (4 + length sm) + (4 + length (encodeMetadata kvs []))
             + (4 + length payload) = T"
    by (simp add: T(1))
  have fb: "frame_bytes h sp sm (encodeMetadata kvs []) plen payload @ rest
            = h @ PutUint32 (word_of_nat T) @ body @ rest"
    unfolding frame_bytes_def tot body_def by simp
  have lb: "length body = T"
    by (simp add: body_def T(1) pl)
  have rd: "Decode Compressors L m0 (h @ PutUint32 (word_of_nat T) @ body @ rest) =
         and_then (Decode_body Compressors M) (\<lambda>(m4, err). Return (m4, err, rest))"
    unfolding M_def stale_def by (rule Decode_reads [OF h m0 lb T(2) lim])
  have bd: "Decode_body Compressors M =
         Decode_unzip Compressors
           (M\<lparr>ServicePath := sp, ServiceMethod := sm,
              Metadata := (if kvs = [] then Metadata M
                           else foldl (\<lambda>m (k, v). m(k \<mapsto> v)) Map.empty kvs),
              Payload := payload\<rparr>)"
  proof (rule Decode_body_frame [where plen = plen and stale = stale])
    show "backing (data M) =
      PutUint32 (word_of_nat (length sp)) @ StringToSliceByte sp
      @ PutUint32 (word_of_nat (length sm)) @ StringToSliceByte sm
      @ PutUint32 (word_of_nat (length (encodeMetadata kvs []))) @ encodeMetadata kvs []
      @ plen @ payload @ stale"
      by (simp add: M_def body_def)
    show "slen (data M) = 16 + length sp + length sm + length (encodeMetadata kvs []) + length payload"
      by (simp add: M_def T(1))
    show "length plen = 4" by (rule pl)
    show "16 + length sp + length sm + length (encodeMetadata kvs []) + length payload < 2 ^ 32"
      using T by simp
  qed
  show ?thesis
    unfolding fb rd bd
    by (rule exI [of _ "\<lparr>backing = body @ stale, slen = T\<rparr>"]) (simp add: M_def)
qed

lemma foldl_upd_append:
  "foldl (\<lambda>m (k, v). m(k \<mapsto> v)) m kvs = m ++ map_of (rev kvs)"
proof (induction kvs arbitrary: m)
  case Nil
  show ?case by simp
next
  case (Cons kv kvs)
  obtain k v where kv: "kv = (k, v)" by (cases kv)
  show ?case
    unfolding kv
    by (simp only: foldl_Cons prod.case Cons.IH)
       (rule ext, auto simp add: map_add_def fun_upd_def split: option.splits)
qed


lemma foldl_upd_map_of:
  assumes "distinct (map fst kvs)"
  shows "foldl (\<lambda>m (k, v). m(k \<mapsto> v)) Map.empty kvs = map_of kvs"
proof -
  have "distinct (map fst (rev kvs))"
    using assms by (simp add: rev_map [symmetric])
  then have "map_of (rev kvs) = map_of kvs"
    using assms by (simp add: map_of_inject_set)
  then show ?thesis
    by (simp add: foldl_upd_append)
qed

lemma Encode_zip_header:
  assumes "length (Header m) = 12" and "Header m ! 0 = magicNumber"
  shows "length (fst (Encode_zip Compressors m)) = 12"
    and "fst (Encode_zip Compressors m) ! 0 = magicNumber"
  using assms
  by (auto simp: Encode_zip_def SetCompressType_def split: option.splits prod.splits)

lemma Decode_unzip_Encode_zip:
  assumes "length (Header m) = 12"
    and "\<forall>c z. CompressType (Header m) \<noteq> None_ct
             \<and> Compressors (CompressType (Header m)) = Some c \<and> Zip c (Payload m) = (z, None)
           \<longrightarrow> Unzip c z = (Payload m, None)"
    and "Encode_zip Compressors m = (h, payload)"
    and "Header M = h" and "Payload M = payload"
  shows "Decode_unzip Compressors M = Return (M\<lparr>Payload := Payload m\<rparr>, None)"
proof (cases "CompressType (Header m) = None_ct")
  case True
  then show ?thesis
    using assms(3,4,5) by (auto simp: Encode_zip_def Decode_unzip_def)
next
  case ct: False
  have cleared: "CompressType (SetCompressType (Header m) None_ct) = None_ct"
    using assms(1) by (simp add: CompressType_SetCompressType None_ct_def)
  show ?thesis
  proof (cases "Compressors (CompressType (Header m))")
    case None
    then show ?thesis
      using ct assms(3,4,5) cleared by (auto simp: Encode_zip_def Decode_unzip_def)
  next
    case (Some c)
    obtain z e where z: "Zip c (Payload m) = (z, e)" by (cases "Zip c (Payload m)")
    show ?thesis
    proof (cases e)
      case None
      then have "Unzip c z = (Payload m, None)"
        using assms(2) ct Some z by simp
      then show ?thesis
        using ct Some z None assms(3,4,5) by (auto simp: Encode_zip_def Decode_unzip_def)
    next
      case (Some err)
      then show ?thesis
        using ct \<open>Compressors (CompressType (Header m)) = Some c\<close> z assms(3,4,5) cleared
        by (auto simp: Encode_zip_def Decode_unzip_def)
    qed
  qed
qed


lemma length_frame_bytes:
  "length (frame_bytes h sp sm meta plen payload)
   = length h + 16 + length sp + length sm + length meta + length plen + length payload"
  by (simp add: frame_bytes_def)

lemma total_length_field:
  "length h = 12 \<Longrightarrow>
   Uint32 (take 4 (drop 12 (frame_bytes h sp sm meta plen payload)))
   = word_of_nat ((4 + length sp) + (4 + length sm) + (4 + length meta) + (4 + length payload))"
  by (simp add: frame_bytes_def)

lemma Decode_Encode:
  assumes hdr: "length (Header m) = 12" "Header m ! 0 = magicNumber"
    and m0: "length (Header m0) = 12" "Metadata m0 = Map.empty"
    and md: "distinct (map fst range_md)" "map_of range_md = Metadata m"
    and size: "length (Encode Compressors range_md m) < 16 + 2 ^ 32"
    and lim: "L \<le> 0 \<or> int (length (Encode Compressors range_md m)) \<le> L + 16"
    and comp: "\<forall>c z. CompressType (Header m) \<noteq> None_ct
             \<and> Compressors (CompressType (Header m)) = Some c \<and> Zip c (Payload m) = (z, None)
           \<longrightarrow> Unzip c z = (Payload m, None)"
  shows "\<exists>m'. Decode Compressors L m0 (Encode Compressors range_md m @ rest) = Return (m', None, rest)
           \<and> Header m' = snd (EncodeSlicePointer Compressors range_md m)
           \<and> ServicePath m' = ServicePath m \<and> ServiceMethod m' = ServiceMethod m
           \<and> Metadata m' = Metadata m \<and> Payload m' = Payload m"
proof -
  obtain h payload where ez: "Encode_zip Compressors m = (h, payload)"
    by (cases "Encode_zip Compressors m")
  have hh: "length h = 12" "h ! 0 = magicNumber"
    using Encode_zip_header [OF hdr, of Compressors] ez by simp_all
  define meta where "meta = encodeMetadata range_md []"
  define T where "T = 16 + length (ServicePath m) + length (ServiceMethod m) + length meta + length payload"
  have esp: "EncodeSlicePointer Compressors range_md m
             = (wire_frame h (ServicePath m) (ServiceMethod m) meta payload, h)"
    unfolding meta_def by (rule EncodeSlicePointer_frame [OF hh(1) ez])
  then have enc: "Encode Compressors range_md m
             = frame_bytes h (ServicePath m) (ServiceMethod m) meta
                 (PutUint32 (word_of_nat (length payload))) payload"
    by (simp add: Encode_def wire_frame_def)
  have len: "length (Encode Compressors range_md m) = 16 + T"
    unfolding enc length_frame_bytes by (simp add: hh(1) T_def)
  have T: "T < 2 ^ 32" and lim': "L \<le> 0 \<or> int T \<le> L"
    using size lim unfolding len by simp_all
  have Tm: "T = 16 + length (ServicePath m) + length (ServiceMethod m)
               + length (encodeMetadata range_md []) + length payload"
    by (simp add: T_def meta_def)
  obtain D where dec: "Decode Compressors L m0 (Encode Compressors range_md m @ rest)
         = and_then (Decode_unzip Compressors
              (m0\<lparr>Header := h, data := D, ServicePath := ServicePath m, ServiceMethod := ServiceMethod m,
                  Metadata := (if range_md = [] then Metadata m0
                               else foldl (\<lambda>m (k, v). m(k \<mapsto> v)) Map.empty range_md),
                  Payload := payload\<rparr>))
             (\<lambda>(m4, err). Return (m4, err, rest))"
    unfolding enc meta_def
    using Decode_frame [OF hh m0(1) _ Tm T lim', of "PutUint32 (word_of_nat (length payload))" Compressors rest]
    by auto
  have mdeq: "(if range_md = [] then Metadata m0
               else foldl (\<lambda>m (k, v). m(k \<mapsto> v)) Map.empty range_md) = Metadata m"
    using md m0(2) by (auto simp: foldl_upd_map_of)
  define M where "M = m0\<lparr>Header := h, data := D, ServicePath := ServicePath m,
      ServiceMethod := ServiceMethod m, Metadata := Metadata m, Payload := payload\<rparr>"
  have uz: "Decode_unzip Compressors M = Return (M\<lparr>Payload := Payload m\<rparr>, None)"
    by (rule Decode_unzip_Encode_zip [OF hdr(1) comp ez]) (simp_all add: M_def)
  have "Decode Compressors L m0 (Encode Compressors range_md m @ rest)
        = Return (M\<lparr>Payload := Payload m\<rparr>, None, rest)"
    unfolding dec mdeq M_def [symmetric] uz by (simp add: and_then_def)
  then show ?thesis
    by (intro exI [of _ "M\<lparr>Payload := Payload m\<rparr>"]) (simp add: M_def esp)
qed

section \<open>The example messages\<close>

lemma gzip_message_header: "Header gzip_message = [8, 0, 4, 0, 0, 0, 0, 0, 0, 0, 0, 0]"
  by code_simp

lemma echo_message_header: "Header echo_message = [8, 0, 0, 0, 0, 0, 0, 0, 0, 0, 0, 0]"
  by code_simp

lemma length_echo_meta: "length (encodeMetadata [(''k'', ''v'')] []) = 10"
  by simp

lemma echo_fields:
  "ServicePath echo_message = ''Echo''" "ServiceMethod echo_message = ''Call''"
  "Metadata echo_message = [''k'' \<mapsto> ''v'']" "Payload echo_message = [1, 2]"
  by (simp_all add: echo_message_def)

lemma Encode_echo:
  "Encode Compressors [(''k'', ''v'')] echo_message
   = wire_frame [8, 0, 0, 0, 0, 0, 0, 0, 0, 0, 0, 0] ''Echo'' ''Call''
       (encodeMetadata [(''k'', ''v'')] []) [1, 2]"
proof -
  have "Encode_zip Compressors echo_message = ([8, 0, 0, 0, 0, 0, 0, 0, 0, 0, 0, 0], [1, 2])"
    by (simp add: Encode_zip_def echo_message_header CompressType_def None_ct_def echo_fields)
  from EncodeSlicePointer_frame [OF _ this, of "[(''k'', ''v'')]"] show ?thesis
    by (simp add: Encode_def echo_fields)
qed

lemma total_echo:
  "Uint32 (take 4 (drop 12 (Encode Compressors [(''k'', ''v'')] echo_message))) = 36"
  unfolding Encode_echo wire_frame_def
  by (subst total_length_field) (simp_all del: encodeMetadata.simps add: length_echo_meta)

lemma gzip_fields:
  "ServicePath gzip_message = ''Echo''" "ServiceMethod gzip_message = ''Call''"
  "Metadata gzip_message = [''k'' \<mapsto> ''v'']" "Payload gzip_message = [1, 2]"
  by (simp_all add: gzip_message_def echo_message_def)

lemma gzip_code: "CompressType (Header gzip_message) = Gzip"
  by code_simp

lemma Encode_gzip:
  "Encode gzip_only [(''k'', ''v'')] gzip_message
   = wire_frame [8, 0, 4, 0, 0, 0, 0, 0, 0, 0, 0, 0] ''Echo'' ''Call''
       (encodeMetadata [(''k'', ''v'')] []) [0x1F, 1, 2]"
proof -
  have "Encode_zip gzip_only gzip_message = (Header gzip_message, [0x1F, 1, 2])"
    by (simp add: Encode_zip_def gzip_code gzip_only_def marker_compressor_def gzip_fields
        Gzip_def None_ct_def)
  then have "Encode_zip gzip_only gzip_message = ([8, 0, 4, 0, 0, 0, 0, 0, 0, 0, 0, 0], [0x1F, 1, 2])"
    by (simp add: gzip_message_header)
  from EncodeSlicePointer_frame [OF _ this, of "[(''k'', ''v'')]"] show ?thesis
    by (simp add: Encode_def gzip_fields)
qed

section \<open>The two encoders on a failing compression\<close>

text \<open>
  C4. A message whose header has a compression code other than identity, for which no
  compressor is registered or whose compressor fails on the payload: \<open>Encode\<close> succeeds; it
  clears the compression code of the header to identity and the frame is the wire format of
  the original payload. \<open>WriteTo\<close> on the same message returns an error: once the header is
  written, \<open>ErrUnsupportedCompressor\<close> or the error of the compressor, and nothing but the
  header has gone to the writer.
\<close>

theorem Encode_downgrades_WriteTo_fails:
  assumes "length (Header m) = 12"
    and "CompressType (Header m) \<noteq> None_ct"
    and "Compressors (CompressType (Header m)) = None \<and> e = ErrUnsupportedCompressor
         \<or> (\<exists>c z. Compressors (CompressType (Header m)) = Some c \<and> Zip c (Payload m) = (z, Some e))"
  shows "EncodeSlicePointer Compressors range_md m
           = (wire_frame (SetCompressType (Header m) None_ct) (ServicePath m) (ServiceMethod m)
                (encodeMetadata range_md []) (Payload m),
              SetCompressType (Header m) None_ct)
       \<and> CompressType (SetCompressType (Header m) None_ct) = None_ct
       \<and> snd (fst (WriteTo wr Compressors range_md m w0)) \<noteq> None
       \<and> (wr w0 (Header m) = ((n, None), w1) \<longrightarrow>
            WriteTo wr Compressors range_md m w0 = ((n, Some e), w1))"
proof (intro conjI impI)
  have ez: "Encode_zip Compressors m = (SetCompressType (Header m) None_ct, Payload m)"
    using assms(2,3) by (auto simp: Encode_zip_def)
  show "EncodeSlicePointer Compressors range_md m
           = (wire_frame (SetCompressType (Header m) None_ct) (ServicePath m) (ServiceMethod m)
                (encodeMetadata range_md []) (Payload m),
              SetCompressType (Header m) None_ct)"
    using assms(1) by (intro EncodeSlicePointer_frame ez) simp
  show "CompressType (SetCompressType (Header m) None_ct) = None_ct"
    using assms(1) by (simp add: CompressType_SetCompressType None_ct_def)
  show "WriteTo wr Compressors range_md m w0 = ((n, Some e), w1)"
    if "wr w0 (Header m) = ((n, None), w1)"
    using that assms(2,3) by (auto simp: WriteTo_def)
  show "snd (fst (WriteTo wr Compressors range_md m w0)) \<noteq> None"
  proof (cases "wr w0 (Header m)")
    case (Pair a w1)
    show ?thesis
    proof (cases a)
      case (Pair n err)
      then show ?thesis
        using \<open>wr w0 (Header m) = (a, w1)\<close> assms(2,3)
        by (cases err) (auto simp: WriteTo_def)
    qed
  qed
qed

theorem Encode_downgrades_WriteTo_fails_witness:
  "length (Header gzip_message) = 12
   \<and> CompressType (Header gzip_message) \<noteq> None_ct
   \<and> (\<lambda>_. None) (CompressType (Header gzip_message)) = (None :: Compressor option)
   \<and> Encode (\<lambda>_. None) [(''k'', ''v'')] gzip_message
       = wire_frame [8, 0, 0, 0, 0, 0, 0, 0, 0, 0, 0, 0] ''Echo'' ''Call''
           (encodeMetadata [(''k'', ''v'')] []) [1, 2]
   \<and> WriteTo buffer_Write (\<lambda>_. None) [(''k'', ''v'')] gzip_message []
       = ((12, Some ErrUnsupportedCompressor), [8, 0, 4, 0, 0, 0, 0, 0, 0, 0, 0, 0])"
proof -
  have l: "length (Header gzip_message) = 12"
    by (simp add: gzip_message_header)
  have c: "CompressType (Header gzip_message) \<noteq> None_ct"
    by (simp add: gzip_message_header CompressType_def None_ct_def)
  have f: "(\<lambda>_. None) (CompressType (Header gzip_message)) = (None :: Compressor option)
             \<and> ErrUnsupportedCompressor = ErrUnsupportedCompressor
           \<or> (\<exists>c z. (\<lambda>_. None) (CompressType (Header gzip_message)) = Some c
                 \<and> Zip c (Payload gzip_message) = (z, Some ErrUnsupportedCompressor))"
    by simp
  have w: "buffer_Write [] (Header gzip_message) = ((12, None), [8, 0, 4, 0, 0, 0, 0, 0, 0, 0, 0, 0])"
    by (simp add: buffer_Write_def gzip_message_header)
  have s: "SetCompressType (Header gzip_message) None_ct = [8, 0, 0, 0, 0, 0, 0, 0, 0, 0, 0, 0]"
    by (simp add: gzip_message_header SetCompressType_def None_ct_def)
  from Encode_downgrades_WriteTo_fails [OF l c f, of "[(''k'', ''v'')]" buffer_Write "[]" 12
      "[8, 0, 4, 0, 0, 0, 0, 0, 0, 0, 0, 0]"] w s l c
  show ?thesis
    by (simp add: Encode_def gzip_message_def echo_message_def)
qed


section \<open>The payload-length field\<close>

lemma Decode_unzip_cases:
  "\<exists>p e. \<forall>M. Header M = h \<and> Payload M = payload \<longrightarrow>
      Decode_unzip Compressors M = Return (M\<lparr>Payload := p\<rparr>, e)
      \<and> (CompressType h = None_ct \<longrightarrow> p = payload \<and> e = None)"
proof (cases "CompressType h = None_ct")
  case True
  then show ?thesis
    by (intro exI [of _ payload] exI [of _ None]) (auto simp: Decode_unzip_def)
next
  case False
  show ?thesis
  proof (cases "Compressors (CompressType h)")
    case None
    then show ?thesis
      using False
      by (intro exI [of _ payload] exI [of _ "Some ErrUnsupportedCompressor"])
         (auto simp: Decode_unzip_def)
  next
    case (Some c)
    obtain p e where "Unzip c payload = (p, e)" by (cases "Unzip c payload")
    then show ?thesis
      using False Some by (intro exI [of _ p] exI [of _ e]) (auto simp: Decode_unzip_def)
  qed
qed

text \<open>
  C9. \<open>Decode\<close> reads the payload-length field and ignores it. On a frame whose path, method
  and metadata sections are well formed and whose total length is that of the body, whatever
  four bytes the payload-length field holds, \<open>Decode\<close> returns without a panic; two such
  frames that differ in that field only give the same error and the same header, path, method,
  metadata and payload; and with identity compression there is no error and the payload is
  all that follows the field in the body.
\<close>

theorem Decode_ignores_payload_length:
  assumes "length h = 12" and "h ! 0 = magicNumber" and "length (Header m0) = 12"
    and "length plen = 4" and "length plen' = 4"
    and "T = 16 + length sp + length sm + length (encodeMetadata kvs []) + length payload"
    and "T < 2 ^ 32"
    and "L \<le> 0 \<or> int T \<le> L"
  shows "\<exists>m1 m2 e.
           Decode Compressors L m0 (frame_bytes h sp sm (encodeMetadata kvs []) plen payload @ rest)
             = Return (m1, e, rest)
         \<and> Decode Compressors L m0 (frame_bytes h sp sm (encodeMetadata kvs []) plen' payload @ rest)
             = Return (m2, e, rest)
         \<and> Header m1 = Header m2 \<and> ServicePath m1 = ServicePath m2
         \<and> ServiceMethod m1 = ServiceMethod m2 \<and> Metadata m1 = Metadata m2
         \<and> Payload m1 = Payload m2
         \<and> (CompressType h = None_ct \<longrightarrow> e = None \<and> Payload m1 = payload)"
proof -
  define md where "md = (if kvs = [] then Metadata m0
                         else foldl (\<lambda>m (k, v). m(k \<mapsto> v)) Map.empty kvs)"
  obtain D1 where d1:
    "Decode Compressors L m0 (frame_bytes h sp sm (encodeMetadata kvs []) plen payload @ rest)
     = and_then (Decode_unzip Compressors
          (m0\<lparr>Header := h, data := D1, ServicePath := sp, ServiceMethod := sm,
              Metadata := md, Payload := payload\<rparr>))
         (\<lambda>(m4, err). Return (m4, err, rest))"
    unfolding md_def
    using Decode_frame [OF assms(1,2,3,4,6,7,8), of Compressors rest] by blast
  obtain D2 where d2:
    "Decode Compressors L m0 (frame_bytes h sp sm (encodeMetadata kvs []) plen' payload @ rest)
     = and_then (Decode_unzip Compressors
          (m0\<lparr>Header := h, data := D2, ServicePath := sp, ServiceMethod := sm,
              Metadata := md, Payload := payload\<rparr>))
         (\<lambda>(m4, err). Return (m4, err, rest))"
    unfolding md_def
    using Decode_frame [OF assms(1,2,3,5,6,7,8), of Compressors rest] by blast
  obtain p e where pe: "\<forall>M. Header M = h \<and> Payload M = payload \<longrightarrow>
      Decode_unzip Compressors M = Return (M\<lparr>Payload := p\<rparr>, e)
      \<and> (CompressType h = None_ct \<longrightarrow> p = payload \<and> e = None)"
    using Decode_unzip_cases [of h payload Compressors] by blast
  define M1 where "M1 = m0\<lparr>Header := h, data := D1, ServicePath := sp, ServiceMethod := sm,
              Metadata := md, Payload := payload\<rparr>"
  define M2 where "M2 = m0\<lparr>Header := h, data := D2, ServicePath := sp, ServiceMethod := sm,
              Metadata := md, Payload := payload\<rparr>"
  have u1: "Decode_unzip Compressors M1 = Return (M1\<lparr>Payload := p\<rparr>, e)"
    and u2: "Decode_unzip Compressors M2 = Return (M2\<lparr>Payload := p\<rparr>, e)"
    and id: "CompressType h = None_ct \<longrightarrow> p = payload \<and> e = None"
    using pe [rule_format, of M1] pe [rule_format, of M2] by (simp_all add: M1_def M2_def)
  have r1: "Decode Compressors L m0 (frame_bytes h sp sm (encodeMetadata kvs []) plen payload @ rest)
            = Return (M1\<lparr>Payload := p\<rparr>, e, rest)"
    unfolding d1 M1_def [symmetric] u1 by (simp add: and_then_def)
  have r2: "Decode Compressors L m0 (frame_bytes h sp sm (encodeMetadata kvs []) plen' payload @ rest)
            = Return (M2\<lparr>Payload := p\<rparr>, e, rest)"
    unfolding d2 M2_def [symmetric] u2 by (simp add: and_then_def)
  show ?thesis
  proof (rule exI [of _ "M1\<lparr>Payload := p\<rparr>"], rule exI [of _ "M2\<lparr>Payload := p\<rparr>"],
      rule exI [of _ e])
    show "Decode Compressors L m0 (frame_bytes h sp sm (encodeMetadata kvs []) plen payload @ rest)
             = Return (M1\<lparr>Payload := p\<rparr>, e, rest)
         \<and> Decode Compressors L m0 (frame_bytes h sp sm (encodeMetadata kvs []) plen' payload @ rest)
             = Return (M2\<lparr>Payload := p\<rparr>, e, rest)
         \<and> Header (M1\<lparr>Payload := p\<rparr>) = Header (M2\<lparr>Payload := p\<rparr>)
         \<and> ServicePath (M1\<lparr>Payload := p\<rparr>) = ServicePath (M2\<lparr>Payload := p\<rparr>)
         \<and> ServiceMethod (M1\<lparr>Payload := p\<rparr>) = ServiceMethod (M2\<lparr>Payload := p\<rparr>)
         \<and> Metadata (M1\<lparr>Payload := p\<rparr>) = Metadata (M2\<lparr>Payload := p\<rparr>)
         \<and> Payload (M1\<lparr>Payload := p\<rparr>) = Payload (M2\<lparr>Payload := p\<rparr>)
         \<and> (CompressType h = None_ct \<longrightarrow> e = None \<and> Payload (M1\<lparr>Payload := p\<rparr>) = payload)"
      using id by (intro conjI r1 r2) (simp_all add: M1_def M2_def)
  qed
qed

theorem Decode_ignores_payload_length_witness:
  "length [8, 0, 0, 0, 0, 0, 0, 0, 0, 0, 0, 0 :: byte] = 12
   \<and> length [0, 0, 0, 99 :: byte] = 4
   \<and> (\<exists>m1 m2 e.
         Decode (\<lambda>_. None) 0 NewRpcMessage
           (frame_bytes [8, 0, 0, 0, 0, 0, 0, 0, 0, 0, 0, 0] ''Echo'' ''Call''
              (encodeMetadata [(''k'', ''v'')] []) [0, 0, 0, 99] [1, 2] @ [7])
           = Return (m1, e, [7])
       \<and> Decode (\<lambda>_. None) 0 NewRpcMessage
           (frame_bytes [8, 0, 0, 0, 0, 0, 0, 0, 0, 0, 0, 0] ''Echo'' ''Call''
              (encodeMetadata [(''k'', ''v'')] []) [0, 0, 0, 2] [1, 2] @ [7])
           = Return (m2, e, [7])
       \<and> Payload m1 = Payload m2 \<and> e = None \<and> Payload m1 = [1, 2])"
proof -
  have h: "length [8, 0, 0, 0, 0, 0, 0, 0, 0, 0, 0, 0 :: byte] = 12"
    "[8, 0, 0, 0, 0, 0, 0, 0, 0, 0, 0, 0 :: byte] ! 0 = magicNumber"
    by (simp_all add: magicNumber_def)
  have m0: "length (Header NewRpcMessage) = 12"
    by (simp add: NewRpcMessage_def)
  have p: "length [0, 0, 0, 99 :: byte] = 4" "length [0, 0, 0, 2 :: byte] = 4"
    by simp_all
  have T: "(36::nat) = 16 + length ''Echo'' + length ''Call''
              + length (encodeMetadata [(''k'', ''v'')] []) + length [1, 2 :: byte]"
    by simp
  have b: "(36::nat) < 2 ^ 32" "(0::int) \<le> 0 \<or> int 36 \<le> 0"
    by simp_all
  have c: "CompressType [8, 0, 0, 0, 0, 0, 0, 0, 0, 0, 0, 0] = None_ct"
    by (simp add: CompressType_def None_ct_def)
  from Decode_ignores_payload_length [OF h m0 p T b, of "\<lambda>_. None" "[7]"] c h(1) p(1)
  show ?thesis
    by blast
qed


section \<open>Round trip\<close>

lemma Read_Decode:
  "Decode Compressors L NewRpcMessage r = Return (m', None, rest) \<Longrightarrow>
   Read Compressors L r = Return (Some m', None, rest)"
  by (simp add: Read_def and_then_def)

text \<open>
  C1. For a message with a well-formed header, any path and method, any metadata map (visited
  by \<open>range\<close> in any order), any payload and any compression code, \<open>Read\<close> (that is
  \<open>Decode\<close> into a new message) on the bytes of \<open>Encode\<close> returns a message with the same
  path, method, metadata and payload, and leaves the rest of the stream. The frame has to fit
  the 32-bit total-length field and the configured \<open>MaxRpcMessageLength\<close>, and a registered
  compressor has to undo with \<open>Unzip\<close> what its \<open>Zip\<close> produced.
\<close>

theorem Decode_Encode_roundtrip:
  assumes "length (Header m) = 12" and "Header m ! 0 = magicNumber"
    and "distinct (map fst range_md)" and "map_of range_md = Metadata m"
    and "length (Encode Compressors range_md m) < 16 + 2 ^ 32"
    and "MaxRpcMessageLength \<le> 0
         \<or> int (length (Encode Compressors range_md m)) \<le> MaxRpcMessageLength + 16"
    and "\<forall>c z. CompressType (Header m) \<noteq> None_ct
             \<and> Compressors (CompressType (Header m)) = Some c \<and> Zip c (Payload m) = (z, None)
           \<longrightarrow> Unzip c z = (Payload m, None)"
  shows "\<exists>m'. Read Compressors MaxRpcMessageLength (Encode Compressors range_md m @ rest)
              = Return (Some m', None, rest)
           \<and> Decode Compressors MaxRpcMessageLength NewRpcMessage
                (Encode Compressors range_md m @ rest) = Return (m', None, rest)
           \<and> ServicePath m' = ServicePath m \<and> ServiceMethod m' = ServiceMethod m
           \<and> Metadata m' = Metadata m \<and> Payload m' = Payload m"
proof -
  have m0: "length (Header NewRpcMessage) = 12" "Metadata NewRpcMessage = Map.empty"
    by (simp_all add: NewRpcMessage_def)
  obtain m' where m': "Decode Compressors MaxRpcMessageLength NewRpcMessage
        (Encode Compressors range_md m @ rest) = Return (m', None, rest)"
    "ServicePath m' = ServicePath m" "ServiceMethod m' = ServiceMethod m"
    "Metadata m' = Metadata m" "Payload m' = Payload m"
    using Decode_Encode [OF assms(1,2) m0 assms(3-7), of rest] by blast
  show ?thesis
    using m' Read_Decode [OF m'(1)] by blast
qed

theorem Decode_Encode_roundtrip_witness:
  "length (Header gzip_message) = 12 \<and> Header gzip_message ! 0 = magicNumber
   \<and> distinct (map fst [(''k'', ''v'')]) \<and> map_of [(''k'', ''v'')] = Metadata gzip_message
   \<and> length (Encode gzip_only [(''k'', ''v'')] gzip_message) < 16 + 2 ^ 32
   \<and> CompressType (Header gzip_message) = Gzip
   \<and> (\<exists>m'. Read gzip_only 0 (Encode gzip_only [(''k'', ''v'')] gzip_message @ [9, 9])
               = Return (Some m', None, [9, 9])
          \<and> ServicePath m' = ''Echo'' \<and> ServiceMethod m' = ''Call''
          \<and> Metadata m' = [''k'' \<mapsto> ''v''] \<and> Payload m' = [1, 2])"
proof -
  have h: "length (Header gzip_message) = 12" "Header gzip_message ! 0 = magicNumber"
    by (simp_all add: gzip_message_header magicNumber_def)
  have md: "distinct (map fst [(''k'', ''v'')])" "map_of [(''k'', ''v'')] = Metadata gzip_message"
    by (simp_all add: gzip_fields)
  have len: "length (Encode gzip_only [(''k'', ''v'')] gzip_message) = 53"
    unfolding Encode_gzip wire_frame_def length_frame_bytes
    by (simp del: encodeMetadata.simps add: length_echo_meta)
  have size: "length (Encode gzip_only [(''k'', ''v'')] gzip_message) < 16 + 2 ^ 32"
    unfolding len by simp
  have lim: "(0::int) \<le> 0 \<or> int (length (Encode gzip_only [(''k'', ''v'')] gzip_message)) \<le> 0 + 16"
    by simp
  have c: "\<forall>c z. CompressType (Header gzip_message) \<noteq> None_ct
             \<and> gzip_only (CompressType (Header gzip_message)) = Some c
             \<and> Zip c (Payload gzip_message) = (z, None)
           \<longrightarrow> Unzip c z = (Payload gzip_message, None)"
    by (auto simp: gzip_code gzip_only_def marker_compressor_def)
  from Decode_Encode_roundtrip [OF h md size lim c, of "[9, 9]"] h md size gzip_code
  show ?thesis
    by (auto simp: gzip_fields)
qed


section \<open>The example of the specification\<close>

text \<open>
  C5, as stated: the total-length field of the encoded example is 34. It is not: the formula
  of the specification, \<open>(4+4)+(4+4)+(4+(4+1+4+1))+(4+2)\<close>, is 36, and so is the field.
\<close>

theorem echo_total_length_not_34:
  "Uint32 (take 4 (drop 12 (Encode (\<lambda>_. None) [(''k'', ''v'')] echo_message))) \<noteq> 34"
  by (simp add: total_echo)

text \<open>
  C5, amended: encoding the message with path Echo, method Call, metadata k = v, payload
  01 02 and identity compression gives a frame whose total-length field is 36, and decoding
  the frame gives the same four fields.
\<close>

theorem echo_roundtrip_total_36:
  "Uint32 (take 4 (drop 12 (Encode Compressors [(''k'', ''v'')] echo_message))) = 36
   \<and> (\<exists>m'. Read Compressors 0 (Encode Compressors [(''k'', ''v'')] echo_message)
               = Return (Some m', None, [])
          \<and> ServicePath m' = ''Echo'' \<and> ServiceMethod m' = ''Call''
          \<and> Metadata m' = [''k'' \<mapsto> ''v''] \<and> Payload m' = [1, 2])"
proof -
  have len: "length (Encode Compressors [(''k'', ''v'')] echo_message) = 52"
    unfolding Encode_echo wire_frame_def length_frame_bytes
    by (simp del: encodeMetadata.simps add: length_echo_meta)
  have m0: "length (Header NewRpcMessage) = 12" "Metadata NewRpcMessage = Map.empty"
    by (simp_all add: NewRpcMessage_def)
  have c: "\<forall>c z. CompressType (Header echo_message) \<noteq> None_ct
             \<and> Compressors (CompressType (Header echo_message)) = Some c
             \<and> Zip c (Payload echo_message) = (z, None)
           \<longrightarrow> Unzip c z = (Payload echo_message, None)"
    by (simp add: echo_message_header CompressType_def None_ct_def)
  obtain m' where m': "Decode Compressors 0 NewRpcMessage
        (Encode Compressors [(''k'', ''v'')] echo_message @ []) = Return (m', None, [])"
    "ServicePath m' = ServicePath echo_message" "ServiceMethod m' = ServiceMethod echo_message"
    "Metadata m' = Metadata echo_message" "Payload m' = Payload echo_message"
    using Decode_Encode [of echo_message NewRpcMessage "[(''k'', ''v'')]" Compressors 0 "[]"] m0 len c
    by (auto simp: echo_message_header magicNumber_def echo_fields)
  have "Read Compressors 0 (Encode Compressors [(''k'', ''v'')] echo_message) = Return (Some m', None, [])"
    using Read_Decode [OF m'(1)] by simp
  then show ?thesis
    using m'(2-5) total_echo by (auto simp: echo_fields)
qed

end
